theory Spec2Isabelle
  imports Main "HOL-Library.Word"
begin

section \<open>The SQL query filter builder and the size-bounded tuple query splitter\<close>

text \<open>
  A shallow embedding of \<^verbatim>\<open>internal/datastore/common/sql.go\<close>.

  Conventions of the embedding:
  \<^item> Go strings are byte sequences; \<open>string\<close> is a list of 8-bit characters, so
    \<open>length\<close> is Go's \<^verbatim>\<open>len\<close>.
  \<^item> Go's \<^verbatim>\<open>int\<close> (the estimated sizes, which are sums of string lengths) is modelled
    as the unbounded \<open>int\<close>: the sums stay far below \<open>2 ^ 63\<close> for strings that fit
    an address space. The row limit is a \<^verbatim>\<open>uint64\<close> and is modelled as \<open>64 word\<close>:
    its subtraction wraps, and \<^verbatim>\<open>int(limit)\<close> is the two's complement reading \<open>sint\<close>
    (a 64-bit platform).
  \<^item> a panic is a value \<open>Inl (Panic msg)\<close> of a sum type; an \<^verbatim>\<open>error\<close> return value is
    part of the returned pair, as in the source.
  \<^item> pointers to messages (\<^verbatim>\<open>*v0.ObjectAndRelation\<close>, \<^verbatim>\<open>*v1.SubjectFilter\<close>) are
    modelled by the messages themselves, i.e. they are assumed not to be nil; an
    optional message field (\<^verbatim>\<open>OptionalRelation\<close>) and the optional limit are \<open>option\<close>s.
  \<^item> trace spans and events are diagnostic only and are left out; the attribute list a
    builder collects for them is kept. The connection pool and the tracer of a splitter are
    assumed to be set.
  \<^item> a Go slice is modelled by the list of its elements: the backing array that slices
    appended from one base may share is not modelled, and the properties below are about
    the elements and the length of the slice that a call returns.
\<close>

subsection \<open>Data model\<close>

text \<open>\<^verbatim>\<open>v0.ObjectAndRelation\<close>, \<^verbatim>\<open>v0.RelationTuple\<close> (its user is always a userset here),
  \<^verbatim>\<open>v1.SubjectFilter\<close> and its \<^verbatim>\<open>RelationFilter\<close>.\<close>

record ObjectAndRelation =
  Namespace :: string
  ObjectId :: string
  Relation :: string

record RelationTuple =
  ObjectAndRelation :: ObjectAndRelation
  User :: ObjectAndRelation

record SubjectFilter_RelationFilter =
  RelationFilter_Relation :: string

record SubjectFilter =
  SubjectType :: string
  OptionalSubjectId :: string
  OptionalRelation :: "SubjectFilter_RelationFilter option"

text \<open>\<^verbatim>\<open>attribute.KeyValue\<close>: a key with a string or an int64 value.\<close>

datatype attribute_Value = StringValue string | Int64Value "64 word"

datatype attribute_KeyValue = KeyValue string attribute_Value

definition Key_String :: "string \<Rightarrow> string \<Rightarrow> attribute_KeyValue" where
  "Key_String k v = KeyValue k (StringValue v)"

definition Key_Int64 :: "string \<Rightarrow> 64 word \<Rightarrow> attribute_KeyValue" where
  "Key_Int64 k v = KeyValue k (Int64Value v)"

definition ObjNamespaceNameKey :: string where
  "ObjNamespaceNameKey = ''authzed.com/spicedb/sql/objNamespaceName''"

definition ObjRelationNameKey :: string where
  "ObjRelationNameKey = ''authzed.com/spicedb/sql/objRelationName''"

definition ObjIDKey :: string where
  "ObjIDKey = ''authzed.com/spicedb/sql/objId''"

definition SubNamespaceNameKey :: string where
  "SubNamespaceNameKey = ''authzed.com/spicedb/sql/subNamespaceName''"

definition SubRelationNameKey :: string where
  "SubRelationNameKey = ''authzed.com/spicedb/sql/subRelationName''"

definition SubObjectIDKey :: string where
  "SubObjectIDKey = ''authzed.com/spicedb/sql/subObjectId''"

definition limitKey :: string where
  "limitKey = ''authzed.com/spicedb/sql/limit''"

text \<open>The part of the squirrel library the builder uses. \<^verbatim>\<open>sq.Eq\<close> is a Go map from
  column names to values, \<^verbatim>\<open>sq.Or\<close> a list of predicates; \<^verbatim>\<open>Where\<close> appends one
  predicate to the statement's where-parts and \<^verbatim>\<open>Limit\<close> sets its row limit.\<close>

datatype Sqlizer = sq_Eq "string \<rightharpoonup> string" | sq_Or "Sqlizer list"

record SelectBuilder =
  Columns :: "string list"
  From :: string
  WhereParts :: "Sqlizer list"
  LimitPart :: "64 word option"

definition SelectBuilder_Where :: "SelectBuilder \<Rightarrow> Sqlizer \<Rightarrow> SelectBuilder" where
  "SelectBuilder_Where b pred = b\<lparr>WhereParts := WhereParts b @ [pred]\<rparr>"

definition SelectBuilder_Limit :: "SelectBuilder \<Rightarrow> 64 word \<Rightarrow> SelectBuilder" where
  "SelectBuilder_Limit b limit = b\<lparr>LimitPart := Some limit\<rparr>"

text \<open>\<^verbatim>\<open>datastore.Ellipsis\<close>, the relation of a subject that is an object itself, and
  \<^verbatim>\<open>stringz.DefaultEmpty\<close>.\<close>

definition Ellipsis :: string where
  "Ellipsis = ''...''"

definition DefaultEmpty :: "string \<Rightarrow> string \<Rightarrow> string" where
  "DefaultEmpty val fallback = (if val = [] then fallback else val)"

record SchemaInformation =
  TableTuple :: string
  ColNamespace :: string
  ColObjectID :: string
  ColRelation :: string
  ColUsersetNamespace :: string
  ColUsersetObjectID :: string
  ColUsersetRelation :: string

record SchemaQueryFilterer =
  schema :: SchemaInformation
  queryBuilder :: SelectBuilder
  currentEstimatedSize :: int
  tracerAttributes :: "attribute_KeyValue list"

datatype panic = Panic string

subsection \<open>The query filter builder\<close>

definition NewSchemaQueryFilterer :: "SchemaInformation \<Rightarrow> SelectBuilder \<Rightarrow> SchemaQueryFilterer" where
  "NewSchemaQueryFilterer sch initialQuery =
     \<lparr>schema = sch, queryBuilder = initialQuery, currentEstimatedSize = 0, tracerAttributes = []\<rparr>"

definition FilterToResourceType :: "SchemaQueryFilterer \<Rightarrow> string \<Rightarrow> SchemaQueryFilterer" where
  "FilterToResourceType sqf resourceType =
     sqf\<lparr>queryBuilder :=
            SelectBuilder_Where (queryBuilder sqf)
              (sq_Eq [ColNamespace (schema sqf) \<mapsto> resourceType]),
         tracerAttributes := tracerAttributes sqf @ [Key_String ObjNamespaceNameKey resourceType],
         currentEstimatedSize := currentEstimatedSize sqf + int (length resourceType)\<rparr>"

definition FilterToResourceID :: "SchemaQueryFilterer \<Rightarrow> string \<Rightarrow> SchemaQueryFilterer" where
  "FilterToResourceID sqf objectID =
     sqf\<lparr>queryBuilder :=
            SelectBuilder_Where (queryBuilder sqf)
              (sq_Eq [ColObjectID (schema sqf) \<mapsto> objectID]),
         tracerAttributes := tracerAttributes sqf @ [Key_String ObjIDKey objectID],
         currentEstimatedSize := currentEstimatedSize sqf + int (length objectID)\<rparr>"

definition FilterToRelation :: "SchemaQueryFilterer \<Rightarrow> string \<Rightarrow> SchemaQueryFilterer" where
  "FilterToRelation sqf relation =
     sqf\<lparr>queryBuilder :=
            SelectBuilder_Where (queryBuilder sqf)
              (sq_Eq [ColRelation (schema sqf) \<mapsto> relation]),
         tracerAttributes := tracerAttributes sqf @ [Key_String ObjRelationNameKey relation],
         currentEstimatedSize := currentEstimatedSize sqf + int (length relation)\<rparr>"

text \<open>\<^verbatim>\<open>FilterToSubjectFilter\<close>, statement by statement: the subject type, then the
  subject id when it is not empty, then the size of both, then the relation when the
  filter has one.\<close>

definition FilterToSubjectFilter :: "SchemaQueryFilterer \<Rightarrow> SubjectFilter \<Rightarrow> SchemaQueryFilterer" where
  "FilterToSubjectFilter sqf0 subjectFilter =
     (let sqf1 = sqf0\<lparr>queryBuilder :=
                        SelectBuilder_Where (queryBuilder sqf0)
                          (sq_Eq [ColUsersetNamespace (schema sqf0) \<mapsto> SubjectType subjectFilter]),
                      tracerAttributes :=
                        tracerAttributes sqf0 @ [Key_String SubNamespaceNameKey (SubjectType subjectFilter)]\<rparr>;
          sqf2 = (if OptionalSubjectId subjectFilter \<noteq> []
                  then sqf1\<lparr>queryBuilder :=
                              SelectBuilder_Where (queryBuilder sqf1)
                                (sq_Eq [ColUsersetObjectID (schema sqf1) \<mapsto> OptionalSubjectId subjectFilter]),
                            tracerAttributes :=
                              tracerAttributes sqf1 @
                                [Key_String SubObjectIDKey (OptionalSubjectId subjectFilter)]\<rparr>
                  else sqf1);
          sqf3 = sqf2\<lparr>currentEstimatedSize :=
                        currentEstimatedSize sqf2 +
                          (int (length (SubjectType subjectFilter)) + int (length (OptionalSubjectId subjectFilter)))\<rparr>
      in case OptionalRelation subjectFilter of
           None \<Rightarrow> sqf3
         | Some rel \<Rightarrow>
             (let dsRelationName = DefaultEmpty (RelationFilter_Relation rel) Ellipsis
              in sqf3\<lparr>queryBuilder :=
                        SelectBuilder_Where (queryBuilder sqf3)
                          (sq_Eq [ColUsersetRelation (schema sqf3) \<mapsto> dsRelationName]),
                      tracerAttributes :=
                        tracerAttributes sqf3 @ [Key_String SubRelationNameKey dsRelationName],
                      currentEstimatedSize :=
                        currentEstimatedSize sqf3 + int (length dsRelationName)\<rparr>))"

text \<open>The estimated size of one userset: the lengths of its three strings.\<close>

definition estimatedUsersetSize :: "ObjectAndRelation \<Rightarrow> int" where
  "estimatedUsersetSize userset =
     int (length (Namespace userset)) + int (length (ObjectId userset)) + int (length (Relation userset))"

text \<open>The map literal of \<^verbatim>\<open>FilterToUsersets\<close>: three keys, inserted in the order written
  (a later key overwrites an equal earlier one).\<close>

definition usersetEq :: "SchemaInformation \<Rightarrow> ObjectAndRelation \<Rightarrow> Sqlizer" where
  "usersetEq sch userset =
     sq_Eq [ColUsersetNamespace sch \<mapsto> Namespace userset,
            ColUsersetObjectID sch \<mapsto> ObjectId userset,
            ColUsersetRelation sch \<mapsto> Relation userset]"

text \<open>The loop of \<^verbatim>\<open>FilterToUsersets\<close> over the usersets, with its two variables: the
  or-clause and the estimated size.\<close>

fun usersetsLoop :: "SchemaInformation \<Rightarrow> Sqlizer list \<Rightarrow> int \<Rightarrow> ObjectAndRelation list
    \<Rightarrow> Sqlizer list \<times> int" where
  "usersetsLoop sch orClause estSize [] = (orClause, estSize)"
| "usersetsLoop sch orClause estSize (userset # usersets) =
     usersetsLoop sch (orClause @ [usersetEq sch userset])
       (estSize + estimatedUsersetSize userset) usersets"

definition FilterToUsersets :: "SchemaQueryFilterer \<Rightarrow> ObjectAndRelation list
    \<Rightarrow> panic + SchemaQueryFilterer" where
  "FilterToUsersets sqf usersets =
     (if length usersets = 0 then Inl (Panic ''Got empty usersets filter'')
      else (case usersetsLoop (schema sqf) [] (currentEstimatedSize sqf) usersets of
              (orClause, estSize) \<Rightarrow>
                Inr (sqf\<lparr>currentEstimatedSize := estSize,
                         queryBuilder := SelectBuilder_Where (queryBuilder sqf) (sq_Or orClause)\<rparr>)))"

definition SchemaQueryFilterer_Limit :: "SchemaQueryFilterer \<Rightarrow> 64 word \<Rightarrow> SchemaQueryFilterer" where
  "SchemaQueryFilterer_Limit sqf limit =
     sqf\<lparr>queryBuilder := SelectBuilder_Limit (queryBuilder sqf) limit,
         tracerAttributes := tracerAttributes sqf @ [Key_Int64 limitKey limit]\<rparr>"

subsection \<open>Errors, rows and the environment of a query\<close>

text \<open>A Go \<^verbatim>\<open>error\<close>: an underlying cause, or \<^verbatim>\<open>fmt.Errorf(format, err)\<close> with a
  \<^verbatim>\<open>%w\<close> verb, which wraps \<open>err\<close>. \<open>Error\<close> is its message and \<open>Unwrap\<close> the
  wrapped error.\<close>

datatype error = Cause string | Errorf string error

definition errUnableToQueryTuples :: string where
  "errUnableToQueryTuples = ''unable to query tuples: %w''"

fun formatW :: "string \<Rightarrow> string \<Rightarrow> string" where
  "formatW [] msg = []"
| "formatW [c] msg = [c]"
| "formatW (c # d # rest) msg =
     (if c = CHR ''%'' \<and> d = CHR ''w'' then msg @ rest else c # formatW (d # rest) msg)"

fun Error :: "error \<Rightarrow> string" where
  "Error (Cause msg) = msg"
| "Error (Errorf format err) = formatW format (Error err)"

fun Unwrap :: "error \<Rightarrow> error option" where
  "Unwrap (Cause msg) = None"
| "Unwrap (Errorf format err) = Some err"

text \<open>The rows of a \<^verbatim>\<open>pgx.Rows\<close>: each row either scans into a tuple or fails to scan;
  when the rows are used up \<^verbatim>\<open>Next\<close> is false and \<^verbatim>\<open>Err\<close> tells whether the iteration
  ended on an error.\<close>

datatype row = Scanned RelationTuple | ScanError error

record pgx_Rows =
  rowsList :: "row list"
  rowsErr :: "error option"

text \<open>What lies outside the package: squirrel's rendering of a statement, and the
  connection pool. A call of \<^verbatim>\<open>SplitAndExecute\<close> begins at most one transaction per
  query index, so the pool's answers are indexed by the query index.\<close>

record Environment =
  ToSql :: "SelectBuilder \<Rightarrow> error + (string \<times> string list)"
  BeginTx :: "nat \<Rightarrow> error option"
  Query :: "nat \<Rightarrow> string \<Rightarrow> string list \<Rightarrow> error + pgx_Rows"

type_synonym Revision = nat

record TupleQuerySplitter =
  PrepareTransaction :: "(nat \<Rightarrow> Revision \<Rightarrow> error option) option"
  SplitAtEstimatedQuerySize :: int
  FilteredQueryBuilder :: SchemaQueryFilterer
  Revision :: Revision
  Limit :: "64 word option"
  Usersets :: "ObjectAndRelation list"
  DebugName :: string

subsection \<open>Splitting the usersets\<close>

text \<open>A slice expression \<^verbatim>\<open>s[low:high]\<close> panics unless \<open>low \<le> high \<le> len(s)\<close> (the
  capacity of the slice is taken to be its length).\<close>

definition go_slice :: "'a list \<Rightarrow> nat \<Rightarrow> nat \<Rightarrow> panic + 'a list" where
  "go_slice s low high =
     (if low \<le> high \<and> high \<le> length s then Inr (take (high - low) (drop low s))
      else Inl (Panic ''slice bounds out of range''))"

text \<open>The first loop of \<^verbatim>\<open>SplitAndExecute\<close>, with its variables \<open>splitIndexes\<close>,
  \<open>currentEstimatedDataSize\<close>, \<open>currentUsersetCount\<close> and \<open>index\<close>; \<open>base\<close> is
  \<^verbatim>\<open>ctq.FilteredQueryBuilder.currentEstimatedSize\<close> and \<open>threshold\<close> is
  \<^verbatim>\<open>int(ctq.SplitAtEstimatedQuerySize)\<close>.\<close>

fun splitScan :: "int \<Rightarrow> int \<Rightarrow> nat list \<Rightarrow> int \<Rightarrow> nat \<Rightarrow> nat \<Rightarrow> ObjectAndRelation list
    \<Rightarrow> nat list" where
  "splitScan base threshold splitIndexes currentEstimatedDataSize currentUsersetCount index [] =
     splitIndexes"
| "splitScan base threshold splitIndexes currentEstimatedDataSize currentUsersetCount index
       (userset # usersets) =
     (if 0 < currentUsersetCount
         \<and> estimatedUsersetSize userset + currentEstimatedDataSize \<ge> threshold
      then splitScan base threshold (splitIndexes @ [index])
             (base + estimatedUsersetSize userset) (currentUsersetCount + 1) (index + 1) usersets
      else splitScan base threshold splitIndexes
             (currentEstimatedDataSize + estimatedUsersetSize userset)
             (currentUsersetCount + 1) (index + 1) usersets)"

definition splitIndexesOf :: "TupleQuerySplitter \<Rightarrow> nat list" where
  "splitIndexesOf ctq =
     splitScan (currentEstimatedSize (FilteredQueryBuilder ctq)) (SplitAtEstimatedQuerySize ctq)
       [] (currentEstimatedSize (FilteredQueryBuilder ctq)) 0 0 (Usersets ctq)"

text \<open>The second loop: one query per split index, from \<open>startIndex\<close> to the split
  index.\<close>

fun buildQueries :: "SchemaQueryFilterer \<Rightarrow> ObjectAndRelation list \<Rightarrow> SchemaQueryFilterer list
    \<Rightarrow> nat \<Rightarrow> nat list \<Rightarrow> panic + (SchemaQueryFilterer list \<times> nat)" where
  "buildQueries fqb usersets queries startIndex [] = Inr (queries, startIndex)"
| "buildQueries fqb usersets queries startIndex (splitIndex # splitIndexes) =
     (case go_slice usersets startIndex splitIndex of
        Inl p \<Rightarrow> Inl p
      | Inr part \<Rightarrow>
          (case FilterToUsersets fqb part of
             Inl p \<Rightarrow> Inl p
           | Inr query \<Rightarrow> buildQueries fqb usersets (queries @ [query]) splitIndex splitIndexes))"

text \<open>The queries of a call: the first half of \<^verbatim>\<open>SplitAndExecute\<close>.\<close>

definition splitQueries :: "TupleQuerySplitter \<Rightarrow> panic + SchemaQueryFilterer list" where
  "splitQueries ctq =
     (if length (Usersets ctq) > 0
      then (case buildQueries (FilteredQueryBuilder ctq) (Usersets ctq) [] 0 (splitIndexesOf ctq) of
              Inl p \<Rightarrow> Inl p
            | Inr (queries, startIndex) \<Rightarrow>
                (case go_slice (Usersets ctq) startIndex (length (Usersets ctq)) of
                   Inl p \<Rightarrow> Inl p
                 | Inr part \<Rightarrow>
                     (case FilterToUsersets (FilteredQueryBuilder ctq) part of
                        Inl p \<Rightarrow> Inl p
                      | Inr query \<Rightarrow> Inr (queries @ [query]))))
      else Inr [FilteredQueryBuilder ctq])"

text \<open>The slices of \<^verbatim>\<open>ctq.Usersets\<close> that the second loop and the statement after it
  hand to \<^verbatim>\<open>FilterToUsersets\<close>, in order: the partitions of the usersets.\<close>

fun usersetSlices :: "ObjectAndRelation list \<Rightarrow> nat \<Rightarrow> nat list
    \<Rightarrow> panic + ObjectAndRelation list list" where
  "usersetSlices usersets startIndex [] =
     (case go_slice usersets startIndex (length usersets) of
        Inl p \<Rightarrow> Inl p
      | Inr part \<Rightarrow> Inr [part])"
| "usersetSlices usersets startIndex (splitIndex # splitIndexes) =
     (case go_slice usersets startIndex splitIndex of
        Inl p \<Rightarrow> Inl p
      | Inr part \<Rightarrow>
          (case usersetSlices usersets splitIndex splitIndexes of
             Inl p \<Rightarrow> Inl p
           | Inr parts \<Rightarrow> Inr (part # parts)))"

definition usersetPartitions :: "TupleQuerySplitter \<Rightarrow> panic + ObjectAndRelation list list" where
  "usersetPartitions ctq = usersetSlices (Usersets ctq) 0 (splitIndexesOf ctq)"

text \<open>The estimated size of a partition: the base size and the sizes of its members.\<close>

definition partitionSize :: "int \<Rightarrow> ObjectAndRelation list \<Rightarrow> int" where
  "partitionSize base part = base + sum_list (map estimatedUsersetSize part)"

text \<open>The splitting rule in the words of the specification: scan the usersets once with
  a current partition and a running size; close the current partition before a userset
  when the partition is not empty and the userset's size plus the running size reaches
  the threshold, and start the next partition with that userset at the base size.\<close>

fun specPartitions :: "int \<Rightarrow> int \<Rightarrow> ObjectAndRelation list \<Rightarrow> int \<Rightarrow> ObjectAndRelation list
    \<Rightarrow> ObjectAndRelation list list" where
  "specPartitions base threshold current running [] = [current]"
| "specPartitions base threshold current running (userset # usersets) =
     (if current \<noteq> [] \<and> estimatedUsersetSize userset + running \<ge> threshold
      then current # specPartitions base threshold [userset]
                       (base + estimatedUsersetSize userset) usersets
      else specPartitions base threshold (current @ [userset])
             (running + estimatedUsersetSize userset) usersets)"

subsection \<open>Executing the queries\<close>

text \<open>The row loop of \<^verbatim>\<open>executeSingleQuery\<close>. A nil slice is the empty list.\<close>

fun rowsLoop :: "64 word \<Rightarrow> RelationTuple list \<Rightarrow> row list \<Rightarrow> error option
    \<Rightarrow> RelationTuple list \<times> error option" where
  "rowsLoop limit tuples [] err =
     (case err of
        Some e \<Rightarrow> ([], Some (Errorf errUnableToQueryTuples e))
      | None \<Rightarrow> (tuples, None))"
| "rowsLoop limit tuples (r # rs) err =
     (if limit > 0 \<and> int (length tuples) \<ge> sint limit then (tuples, None)
      else (case r of
              ScanError e \<Rightarrow> ([], Some (Errorf errUnableToQueryTuples e))
            | Scanned nextTuple \<Rightarrow> rowsLoop limit (tuples @ [nextTuple]) rs err))"

definition executeSingleQuery :: "Environment \<Rightarrow> TupleQuerySplitter \<Rightarrow> SchemaQueryFilterer
    \<Rightarrow> nat \<Rightarrow> 64 word \<Rightarrow> RelationTuple list \<times> error option" where
  "executeSingleQuery env ctq query index limit =
     (case ToSql env (queryBuilder query) of
        Inl err \<Rightarrow> ([], Some (Errorf errUnableToQueryTuples err))
      | Inr (sql, args) \<Rightarrow>
          (case BeginTx env index of
             Some err \<Rightarrow> ([], Some (Errorf errUnableToQueryTuples err))
           | None \<Rightarrow>
               (case (case PrepareTransaction ctq of
                        None \<Rightarrow> None
                      | Some prepare \<Rightarrow> prepare index (Revision ctq)) of
                  Some err \<Rightarrow> ([], Some (Errorf errUnableToQueryTuples err))
                | None \<Rightarrow>
                    (case Query env index sql args of
                       Inl err \<Rightarrow> ([], Some (Errorf errUnableToQueryTuples err))
                     | Inr rows \<Rightarrow> rowsLoop limit [] (rowsList rows) (rowsErr rows)))))"

text \<open>One turn of the execution loop of \<^verbatim>\<open>SplitAndExecute\<close>: it breaks, returns the
  error of the query, or goes on with more tuples.\<close>

datatype turn = Break | Failed error | Continue "RelationTuple list"

definition runQuery :: "Environment \<Rightarrow> TupleQuerySplitter \<Rightarrow> RelationTuple list \<Rightarrow> nat
    \<Rightarrow> SchemaQueryFilterer \<Rightarrow> 64 word \<Rightarrow> turn" where
  "runQuery env ctq tuples index query newLimit =
     (case executeSingleQuery env ctq query index newLimit of
        (foundTuples, Some err) \<Rightarrow> Failed err
      | (foundTuples, None) \<Rightarrow> Continue (tuples @ foundTuples))"

definition loopBody :: "Environment \<Rightarrow> TupleQuerySplitter \<Rightarrow> RelationTuple list \<Rightarrow> nat
    \<Rightarrow> SchemaQueryFilterer \<Rightarrow> turn" where
  "loopBody env ctq tuples index query =
     (case Limit ctq of
        None \<Rightarrow> runQuery env ctq tuples index query 0
      | Some limit \<Rightarrow>
          (let newLimit = limit - of_nat (length tuples)
           in if newLimit \<le> 0 then Break
              else runQuery env ctq tuples index (SchemaQueryFilterer_Limit query newLimit) newLimit))"

fun executeLoop :: "Environment \<Rightarrow> TupleQuerySplitter \<Rightarrow> RelationTuple list \<Rightarrow> nat
    \<Rightarrow> SchemaQueryFilterer list \<Rightarrow> RelationTuple list option \<times> error option" where
  "executeLoop env ctq tuples index [] = (Some tuples, None)"
| "executeLoop env ctq tuples index (query # queries) =
     (case loopBody env ctq tuples index query of
        Break \<Rightarrow> (Some tuples, None)
      | Failed err \<Rightarrow> (None, Some err)
      | Continue tuples' \<Rightarrow> executeLoop env ctq tuples' (index + 1) queries)"

text \<open>\<^verbatim>\<open>SplitAndExecute\<close>: the iterator over the tuples (here the tuples themselves) or
  nil, and the error or nil.\<close>

definition SplitAndExecute :: "Environment \<Rightarrow> TupleQuerySplitter
    \<Rightarrow> panic + (RelationTuple list option \<times> error option)" where
  "SplitAndExecute env ctq =
     (case splitQueries ctq of
        Inl p \<Rightarrow> Inl p
      | Inr queries \<Rightarrow> Inr (executeLoop env ctq [] 0 queries))"

text \<open>The states in which the execution loop stands at the head of a turn: the index of
  the next query and the tuples collected so far.\<close>

inductive loopState :: "Environment \<Rightarrow> TupleQuerySplitter \<Rightarrow> SchemaQueryFilterer list
    \<Rightarrow> nat \<Rightarrow> RelationTuple list \<Rightarrow> bool"
  for env ctq queries where
  loopStart: "loopState env ctq queries 0 []"
| loopNext: "loopState env ctq queries index tuples \<Longrightarrow> index < length queries \<Longrightarrow>
     loopBody env ctq tuples index (queries ! index) = Continue tuples' \<Longrightarrow>
     loopState env ctq queries (index + 1) tuples'"

text \<open>The failures of one query in the words of the specification, stage by stage: SQL
  rendering, transaction begin, preparation hook, statement execution, row decoding, and
  an error at the end of the row iteration. A row is decoded, and the end of the rows is
  seen, only while the cap of the query is not reached (\<open>limit = 0\<close> is no cap).\<close>

inductive stageFails :: "Environment \<Rightarrow> TupleQuerySplitter \<Rightarrow> SchemaQueryFilterer \<Rightarrow> nat
    \<Rightarrow> 64 word \<Rightarrow> error \<Rightarrow> bool"
  for env ctq query index limit where
  failsRendering:
    "ToSql env (queryBuilder query) = Inl cause \<Longrightarrow> stageFails env ctq query index limit cause"
| failsBegin:
    "ToSql env (queryBuilder query) = Inr (sql, args) \<Longrightarrow> BeginTx env index = Some cause \<Longrightarrow>
     stageFails env ctq query index limit cause"
| failsPreparation:
    "ToSql env (queryBuilder query) = Inr (sql, args) \<Longrightarrow> BeginTx env index = None \<Longrightarrow>
     PrepareTransaction ctq = Some prepare \<Longrightarrow> prepare index (Revision ctq) = Some cause \<Longrightarrow>
     stageFails env ctq query index limit cause"
| failsStatement:
    "ToSql env (queryBuilder query) = Inr (sql, args) \<Longrightarrow> BeginTx env index = None \<Longrightarrow>
     PrepareTransaction ctq = None
       \<or> (\<exists>prepare. PrepareTransaction ctq = Some prepare \<and> prepare index (Revision ctq) = None) \<Longrightarrow>
     Query env index sql args = Inl cause \<Longrightarrow>
     stageFails env ctq query index limit cause"
| failsDecoding:
    "ToSql env (queryBuilder query) = Inr (sql, args) \<Longrightarrow> BeginTx env index = None \<Longrightarrow>
     PrepareTransaction ctq = None
       \<or> (\<exists>prepare. PrepareTransaction ctq = Some prepare \<and> prepare index (Revision ctq) = None) \<Longrightarrow>
     Query env index sql args = Inr rows \<Longrightarrow>
     rowsList rows = map Scanned decoded @ ScanError cause # later \<Longrightarrow>
     limit = 0 \<or> int (length decoded) < sint limit \<Longrightarrow>
     stageFails env ctq query index limit cause"
| failsIteration:
    "ToSql env (queryBuilder query) = Inr (sql, args) \<Longrightarrow> BeginTx env index = None \<Longrightarrow>
     PrepareTransaction ctq = None
       \<or> (\<exists>prepare. PrepareTransaction ctq = Some prepare \<and> prepare index (Revision ctq) = None) \<Longrightarrow>
     Query env index sql args = Inr rows \<Longrightarrow>
     rowsList rows = map Scanned decoded \<Longrightarrow> rowsErr rows = Some cause \<Longrightarrow>
     limit = 0 \<or> decoded = [] \<or> int (length decoded) - 1 < sint limit \<Longrightarrow>
     stageFails env ctq query index limit cause"

text \<open>A backend that serves the queries of a call without any failure and holds the
  rows \<open>avail i\<close> for the query of index \<open>i\<close>: to that query with the limit \<open>l\<close> it
  answers with rows that agree with \<open>avail i\<close> on the first \<open>l\<close> (it may cut the
  rows at the limit itself, or leave that to the caller).\<close>

definition backendServes :: "Environment \<Rightarrow> TupleQuerySplitter \<Rightarrow> SchemaQueryFilterer list
    \<Rightarrow> (nat \<Rightarrow> RelationTuple list) \<Rightarrow> bool" where
  "backendServes env ctq queries avail \<longleftrightarrow>
     (\<forall>i < length queries.
        BeginTx env i = None
        \<and> (case PrepareTransaction ctq of
             None \<Rightarrow> True
           | Some prepare \<Rightarrow> prepare i (Revision ctq) = None)
        \<and> (\<forall>l. \<exists>sql args served.
              ToSql env (queryBuilder (SchemaQueryFilterer_Limit (queries ! i) l)) = Inr (sql, args)
              \<and> Query env i sql args = Inr \<lparr>rowsList = map Scanned served, rowsErr = None\<rparr>
              \<and> take (unat l) served = take (unat l) (avail i)))"

subsection \<open>Example inputs\<close>

definition exampleSchema :: SchemaInformation where
  "exampleSchema =
     \<lparr>TableTuple = ''relation_tuple'', ColNamespace = ''namespace'', ColObjectID = ''object_id'',
      ColRelation = ''relation'', ColUsersetNamespace = ''userset_namespace'',
      ColUsersetObjectID = ''userset_object_id'', ColUsersetRelation = ''userset_relation''\<rparr>"

definition exampleQuery :: SelectBuilder where
  "exampleQuery =
     \<lparr>Columns = [''namespace'', ''object_id'', ''relation'', ''userset_namespace'',
                 ''userset_object_id'', ''userset_relation''],
      From = ''relation_tuple'', WhereParts = [], LimitPart = None\<rparr>"

definition exampleBuilder :: SchemaQueryFilterer where
  "exampleBuilder = NewSchemaQueryFilterer exampleSchema exampleQuery"

definition usersetA :: ObjectAndRelation where
  "usersetA = \<lparr>Namespace = ''a'', ObjectId = ''1'', Relation = []\<rparr>"

definition usersetB :: ObjectAndRelation where
  "usersetB = \<lparr>Namespace = ''bb'', ObjectId = ''22'', Relation = []\<rparr>"

definition usersetC :: ObjectAndRelation where
  "usersetC = \<lparr>Namespace = ''cccccccccccccccccc'', ObjectId = ''3'', Relation = []\<rparr>"

definition userset15 :: ObjectAndRelation where
  "userset15 = \<lparr>Namespace = ''user'', ObjectId = ''0123456789'', Relation = ''.''\<rparr>"

definition exampleSubjectFilter :: SubjectFilter where
  "exampleSubjectFilter =
     \<lparr>SubjectType = ''user'', OptionalSubjectId = ''tom'',
      OptionalRelation = Some \<lparr>RelationFilter_Relation = []\<rparr>\<rparr>"

text \<open>The scenario of the specification: threshold 20, base size 0, usersets of the sizes
  2, 4 and 19.\<close>

definition scenarioSplitter :: TupleQuerySplitter where
  "scenarioSplitter =
     \<lparr>PrepareTransaction = None, SplitAtEstimatedQuerySize = 20,
      FilteredQueryBuilder = exampleBuilder, Revision = 0, Limit = None,
      Usersets = [usersetA, usersetB, usersetC], DebugName = ''QueryTuples''\<rparr>"

text \<open>A base builder of the estimated size 10 and one userset of the size 15, with the
  threshold 20.\<close>

definition filteredSplitter :: TupleQuerySplitter where
  "filteredSplitter =
     \<lparr>PrepareTransaction = None, SplitAtEstimatedQuerySize = 20,
      FilteredQueryBuilder = FilterToResourceType exampleBuilder ''tenletters'', Revision = 0,
      Limit = None, Usersets = [userset15], DebugName = ''QueryTuples''\<rparr>"

text \<open>A base builder of the estimated size 10 and the threshold 20, with two small
  usersets and then the userset of the size 15.\<close>

definition mixedSplitter :: TupleQuerySplitter where
  "mixedSplitter =
     \<lparr>PrepareTransaction = None, SplitAtEstimatedQuerySize = 20,
      FilteredQueryBuilder = FilterToResourceType exampleBuilder ''tenletters'', Revision = 0,
      Limit = None, Usersets = [usersetA, usersetB, userset15], DebugName = ''QueryTuples''\<rparr>"

text \<open>The two queries of the scenario.\<close>

definition scenarioQueryOne :: SchemaQueryFilterer where
  "scenarioQueryOne =
     exampleBuilder\<lparr>currentEstimatedSize := 6,
       queryBuilder := SelectBuilder_Where exampleQuery
         (sq_Or [usersetEq exampleSchema usersetA, usersetEq exampleSchema usersetB])\<rparr>"

definition scenarioQueryTwo :: SchemaQueryFilterer where
  "scenarioQueryTwo =
     exampleBuilder\<lparr>currentEstimatedSize := 19,
       queryBuilder := SelectBuilder_Where exampleQuery
         (sq_Or [usersetEq exampleSchema usersetC])\<rparr>"

definition tupleOne :: RelationTuple where
  "tupleOne =
     \<lparr>ObjectAndRelation = \<lparr>Namespace = ''document'', ObjectId = ''one'', Relation = ''viewer''\<rparr>,
      User = usersetA\<rparr>"

definition tupleTwo :: RelationTuple where
  "tupleTwo =
     \<lparr>ObjectAndRelation = \<lparr>Namespace = ''document'', ObjectId = ''two'', Relation = ''viewer''\<rparr>,
      User = usersetA\<rparr>"

text \<open>A rendering that fails on a statement without result columns, as squirrel's does,
  and otherwise gives some statement text without arguments.\<close>

definition renderSql :: "SelectBuilder \<Rightarrow> error + (string \<times> string list)" where
  "renderSql builder =
     (if Columns builder = []
      then Inl (Cause ''select statements must have at least one result column'')
      else Inr (''SELECT'', []))"

text \<open>A backend that answers every query with the same two rows, whatever the limit of
  the statement.\<close>

definition servingEnv :: Environment where
  "servingEnv =
     \<lparr>ToSql = renderSql, BeginTx = (\<lambda>index. None),
      Query = (\<lambda>index sql args.
        Inr \<lparr>rowsList = [Scanned tupleOne, Scanned tupleTwo], rowsErr = None\<rparr>)\<rparr>"

text \<open>A backend whose second query fails to decode its second row.\<close>

definition decodeFailEnv :: Environment where
  "decodeFailEnv =
     \<lparr>ToSql = renderSql, BeginTx = (\<lambda>index. None),
      Query = (\<lambda>index sql args.
        if index = 1
        then Inr \<lparr>rowsList = [Scanned tupleOne, ScanError (Cause ''cannot scan'')], rowsErr = None\<rparr>
        else Inr \<lparr>rowsList = [Scanned tupleOne], rowsErr = None\<rparr>)\<rparr>"

text \<open>The scenario with a limit of three rows, and a call without usersets whose limit is
  \<open>2 ^ 63\<close>.\<close>

definition limitedSplitter :: TupleQuerySplitter where
  "limitedSplitter = scenarioSplitter\<lparr>Limit := Some 3\<rparr>"

definition hugeLimitSplitter :: TupleQuerySplitter where
  "hugeLimitSplitter =
     \<lparr>PrepareTransaction = None, SplitAtEstimatedQuerySize = 20,
      FilteredQueryBuilder = exampleBuilder, Revision = 0,
      Limit = Some 9223372036854775808, Usersets = [], DebugName = ''QueryTuples''\<rparr>"

section \<open>Properties\<close>

subsection \<open>The query filter builder\<close>

lemma usersetsLoop_eq:
  "usersetsLoop sch orClause estSize usersets =
     (orClause @ map (usersetEq sch) usersets,
      estSize + sum_list (map estimatedUsersetSize usersets))"
  by (induction usersets arbitrary: orClause estSize) simp_all

lemma FilterToUsersets_nonempty:
  "usersets \<noteq> [] \<Longrightarrow>
   FilterToUsersets sqf usersets =
     Inr (sqf\<lparr>currentEstimatedSize :=
                 currentEstimatedSize sqf + sum_list (map estimatedUsersetSize usersets),
              queryBuilder :=
                 SelectBuilder_Where (queryBuilder sqf) (sq_Or (map (usersetEq (schema sqf)) usersets))\<rparr>)"
  by (simp add: FilterToUsersets_def usersetsLoop_eq)

lemma FilterToUsersets_Inr:
  "part \<noteq> [] \<Longrightarrow> \<exists>q. FilterToUsersets fqb part = Inr q"
  by (simp add: FilterToUsersets_nonempty)

text \<open>
  Claim C6. \<^verbatim>\<open>FilterToUsersets\<close> panics on the empty list (it does not return an error
  value); on a non-empty list it returns a builder whose statement has one more where-part:
  a disjunction with, for every userset in order, the conjunction of the equalities on the
  subject type, subject id and subject relation columns.
\<close>

theorem FilterToUsersets_empty_panics_else_one_disjunction:
  "FilterToUsersets sqf [] = Inl (Panic ''Got empty usersets filter'') \<and>
   (usersets \<noteq> [] \<longrightarrow>
      (\<exists>sqf'. FilterToUsersets sqf usersets = Inr sqf' \<and>
         WhereParts (queryBuilder sqf') =
           WhereParts (queryBuilder sqf) @
             [sq_Or (map (\<lambda>userset.
                       sq_Eq [ColUsersetNamespace (schema sqf) \<mapsto> Namespace userset,
                              ColUsersetObjectID (schema sqf) \<mapsto> ObjectId userset,
                              ColUsersetRelation (schema sqf) \<mapsto> Relation userset]) usersets)]))"
proof -
  have "FilterToUsersets sqf [] = Inl (Panic ''Got empty usersets filter'')"
    by (simp add: FilterToUsersets_def)
  moreover have "map (usersetEq (schema sqf)) usersets =
      map (\<lambda>userset.
             sq_Eq [ColUsersetNamespace (schema sqf) \<mapsto> Namespace userset,
                    ColUsersetObjectID (schema sqf) \<mapsto> ObjectId userset,
                    ColUsersetRelation (schema sqf) \<mapsto> Relation userset]) usersets"
    by (simp add: usersetEq_def)
  ultimately show ?thesis
    by (simp add: FilterToUsersets_nonempty SelectBuilder_Where_def)
qed

theorem FilterToUsersets_empty_panics_else_one_disjunction_witness:
  "FilterToUsersets exampleBuilder [] = Inl (Panic ''Got empty usersets filter'')
   \<and> [usersetA, usersetB] \<noteq> []
   \<and> (\<exists>sqf'. FilterToUsersets exampleBuilder [usersetA, usersetB] = Inr sqf'
        \<and> WhereParts (queryBuilder sqf') =
            [sq_Or [sq_Eq [''userset_namespace'' \<mapsto> ''a'', ''userset_object_id'' \<mapsto> ''1'',
                           ''userset_relation'' \<mapsto> []],
                    sq_Eq [''userset_namespace'' \<mapsto> ''bb'', ''userset_object_id'' \<mapsto> ''22'',
                           ''userset_relation'' \<mapsto> []]]])"
  using FilterToUsersets_empty_panics_else_one_disjunction
    [of exampleBuilder "[usersetA, usersetB]"]
  by (simp add: exampleBuilder_def NewSchemaQueryFilterer_def exampleSchema_def exampleQuery_def
      usersetA_def usersetB_def)

text \<open>
  Claim C8. \<^verbatim>\<open>FilterToSubjectFilter\<close> always adds the equality on the subject type column;
  it adds the equality on the subject id column if and only if the subject id is not empty;
  and when the filter has a relation it adds the equality on the subject relation column,
  where an empty relation stands for the relation \<^verbatim>\<open>...\<close>.
\<close>

theorem FilterToSubjectFilter_where_parts:
  "WhereParts (queryBuilder (FilterToSubjectFilter sqf subjectFilter)) =
     WhereParts (queryBuilder sqf)
       @ [sq_Eq [ColUsersetNamespace (schema sqf) \<mapsto> SubjectType subjectFilter]]
       @ (if OptionalSubjectId subjectFilter \<noteq> []
          then [sq_Eq [ColUsersetObjectID (schema sqf) \<mapsto> OptionalSubjectId subjectFilter]]
          else [])
       @ (case OptionalRelation subjectFilter of
            None \<Rightarrow> []
          | Some rel \<Rightarrow>
              [sq_Eq [ColUsersetRelation (schema sqf) \<mapsto>
                       (if RelationFilter_Relation rel = [] then ''...''
                        else RelationFilter_Relation rel)]])"
  by (simp add: FilterToSubjectFilter_def SelectBuilder_Where_def DefaultEmpty_def Ellipsis_def
      Let_def split: option.splits)

theorem FilterToSubjectFilter_where_parts_witness:
  "WhereParts (queryBuilder (FilterToSubjectFilter exampleBuilder exampleSubjectFilter)) =
     [sq_Eq [''userset_namespace'' \<mapsto> ''user''], sq_Eq [''userset_object_id'' \<mapsto> ''tom''],
      sq_Eq [''userset_relation'' \<mapsto> ''...'']]"
  using FilterToSubjectFilter_where_parts [of exampleBuilder exampleSubjectFilter]
  by (simp add: exampleBuilder_def NewSchemaQueryFilterer_def exampleSubjectFilter_def
      exampleSchema_def exampleQuery_def)

text \<open>
  Claim C7, as amended. The filters by resource type, resource id and relation grow the
  estimated size by the length of their operand and the attribute list by one pair. The
  subject filter grows the estimated size by the lengths of the subject type, the subject
  id and, when the filter has a relation, the relation after its normalisation; it grows
  the attribute list by one pair for each equality it adds (one to three). The userset
  filter grows the estimated size by the sizes of the usersets and leaves the attribute
  list as it is. (The claim as stated, exactly one pair for every filter, fails for the last
  two: \<open>filters_size_and_attributes_counterexample\<close> below.)
\<close>

theorem filters_size_and_attributes:
  "currentEstimatedSize (FilterToResourceType sqf resourceType)
     = currentEstimatedSize sqf + int (length resourceType)
   \<and> length (tracerAttributes (FilterToResourceType sqf resourceType))
     = length (tracerAttributes sqf) + 1
   \<and> currentEstimatedSize (FilterToResourceID sqf objectID)
     = currentEstimatedSize sqf + int (length objectID)
   \<and> length (tracerAttributes (FilterToResourceID sqf objectID))
     = length (tracerAttributes sqf) + 1
   \<and> currentEstimatedSize (FilterToRelation sqf relation)
     = currentEstimatedSize sqf + int (length relation)
   \<and> length (tracerAttributes (FilterToRelation sqf relation))
     = length (tracerAttributes sqf) + 1
   \<and> currentEstimatedSize (FilterToSubjectFilter sqf subjectFilter)
     = currentEstimatedSize sqf + int (length (SubjectType subjectFilter))
         + int (length (OptionalSubjectId subjectFilter))
         + (case OptionalRelation subjectFilter of
              None \<Rightarrow> 0
            | Some rel \<Rightarrow> int (length (DefaultEmpty (RelationFilter_Relation rel) Ellipsis)))
   \<and> length (tracerAttributes (FilterToSubjectFilter sqf subjectFilter))
     = length (tracerAttributes sqf) + 1
         + (if OptionalSubjectId subjectFilter \<noteq> [] then 1 else 0)
         + (case OptionalRelation subjectFilter of None \<Rightarrow> 0 | Some rel \<Rightarrow> 1)
   \<and> (usersets \<noteq> [] \<longrightarrow>
        (\<exists>sqf'. FilterToUsersets sqf usersets = Inr sqf'
           \<and> currentEstimatedSize sqf'
               = currentEstimatedSize sqf + sum_list (map estimatedUsersetSize usersets)
           \<and> tracerAttributes sqf' = tracerAttributes sqf))"
proof -
  have subj_size: "currentEstimatedSize (FilterToSubjectFilter sqf subjectFilter)
     = currentEstimatedSize sqf + int (length (SubjectType subjectFilter))
         + int (length (OptionalSubjectId subjectFilter))
         + (case OptionalRelation subjectFilter of
              None \<Rightarrow> 0
            | Some rel \<Rightarrow> int (length (DefaultEmpty (RelationFilter_Relation rel) Ellipsis)))"
    by (simp add: FilterToSubjectFilter_def Let_def split: option.splits)
  have subj_attrs: "length (tracerAttributes (FilterToSubjectFilter sqf subjectFilter))
     = length (tracerAttributes sqf) + 1
         + (if OptionalSubjectId subjectFilter \<noteq> [] then 1 else 0)
         + (case OptionalRelation subjectFilter of None \<Rightarrow> 0 | Some rel \<Rightarrow> 1)"
    by (simp add: FilterToSubjectFilter_def Let_def split: option.splits)
  have usersets: "usersets \<noteq> [] \<longrightarrow>
        (\<exists>sqf'. FilterToUsersets sqf usersets = Inr sqf'
           \<and> currentEstimatedSize sqf'
               = currentEstimatedSize sqf + sum_list (map estimatedUsersetSize usersets)
           \<and> tracerAttributes sqf' = tracerAttributes sqf)"
    by (simp add: FilterToUsersets_nonempty)
  show ?thesis
    using subj_size subj_attrs usersets
    by (simp add: FilterToResourceType_def FilterToResourceID_def FilterToRelation_def)
qed

theorem filters_size_and_attributes_witness:
  "[usersetA, usersetB] \<noteq> []
   \<and> currentEstimatedSize (FilterToResourceType exampleBuilder ''tenletters'') = 10
   \<and> length (tracerAttributes (FilterToResourceType exampleBuilder ''tenletters'')) = 1
   \<and> currentEstimatedSize (FilterToSubjectFilter exampleBuilder exampleSubjectFilter) = 10
   \<and> length (tracerAttributes (FilterToSubjectFilter exampleBuilder exampleSubjectFilter)) = 3
   \<and> (\<exists>sqf'. FilterToUsersets exampleBuilder [usersetA, usersetB] = Inr sqf'
        \<and> currentEstimatedSize sqf' = 6 \<and> tracerAttributes sqf' = [])"
  using filters_size_and_attributes
    [of exampleBuilder "''tenletters''" _ _ exampleSubjectFilter "[usersetA, usersetB]"]
  by (simp add: exampleBuilder_def NewSchemaQueryFilterer_def exampleSubjectFilter_def
      usersetA_def usersetB_def estimatedUsersetSize_def DefaultEmpty_def Ellipsis_def)

theorem filters_size_and_attributes_counterexample:
  "map_sum id tracerAttributes (FilterToUsersets exampleBuilder [usersetA])
     = Inr (tracerAttributes exampleBuilder)
   \<and> length (tracerAttributes (FilterToSubjectFilter exampleBuilder exampleSubjectFilter))
     = length (tracerAttributes exampleBuilder) + 3"
  by (simp add: FilterToUsersets_def FilterToSubjectFilter_def exampleBuilder_def
      NewSchemaQueryFilterer_def exampleSubjectFilter_def Let_def)

subsection \<open>The split of the usersets\<close>

lemma specPartitions_not_Nil: "specPartitions b t current run us \<noteq> []"
  by (induction us arbitrary: current run) simp_all

lemma splitScan_acc:
  "splitScan b t sis cur cnt i us = sis @ splitScan b t [] cur cnt i us"
proof (induction us arbitrary: sis cur cnt i)
  case Nil
  show ?case by simp
next
  case (Cons u us)
  show ?case
  proof (cases "0 < cnt \<and> estimatedUsersetSize u + cur \<ge> t")
    case True
    have "splitScan b t (sis @ [i]) (b + estimatedUsersetSize u) (cnt + 1) (i + 1) us =
        (sis @ [i]) @ splitScan b t [] (b + estimatedUsersetSize u) (cnt + 1) (i + 1) us"
      by (rule Cons.IH)
    moreover have "splitScan b t ([] @ [i]) (b + estimatedUsersetSize u) (cnt + 1) (i + 1) us =
        ([] @ [i]) @ splitScan b t [] (b + estimatedUsersetSize u) (cnt + 1) (i + 1) us"
      by (rule Cons.IH)
    ultimately show ?thesis using True by simp
  next
    case False
    then show ?thesis using Cons.IH [of sis] by auto
  qed
qed

lemma splitScan_Cons_split:
  "0 < cnt \<Longrightarrow> estimatedUsersetSize u + cur \<ge> t \<Longrightarrow>
   splitScan b t [] cur cnt i (u # us) =
     i # splitScan b t [] (b + estimatedUsersetSize u) (cnt + 1) (i + 1) us"
  using splitScan_acc [of b t "[i]"] by simp

lemma splitScan_Cons_keep:
  "\<not> (0 < cnt \<and> estimatedUsersetSize u + cur \<ge> t) \<Longrightarrow>
   splitScan b t [] cur cnt i (u # us) =
     splitScan b t [] (cur + estimatedUsersetSize u) (cnt + 1) (i + 1) us"
  by auto

lemma go_slice_prefix:
  "s \<le> length done \<Longrightarrow>
   go_slice (done @ rest) s (length done) = Inr (drop s done)"
  by (simp add: go_slice_def)

lemma go_slice_to_end:
  "s \<le> length xs \<Longrightarrow> go_slice xs s (length xs) = Inr (drop s xs)"
  by (simp add: go_slice_def)

lemma usersetSlices_refines:
  "s \<le> length done \<Longrightarrow> (0 < cnt \<longleftrightarrow> s < length done) \<Longrightarrow>
   usersetSlices (done @ rest) s (splitScan b t [] cur cnt (length done) rest) =
     Inr (specPartitions b t (drop s done) cur rest)"
proof (induction rest arbitrary: "done" s cur cnt)
  case Nil
  then show ?case by (simp add: go_slice_to_end)
next
  case (Cons u us)
  show ?case
  proof (cases "0 < cnt \<and> estimatedUsersetSize u + cur \<ge> t")
    case True
    have ih: "usersetSlices ((done @ [u]) @ us) (length done)
        (splitScan b t [] (b + estimatedUsersetSize u) (cnt + 1) (length (done @ [u])) us) =
        Inr (specPartitions b t (drop (length done) (done @ [u])) (b + estimatedUsersetSize u) us)"
      by (rule Cons.IH) simp_all
    have ne: "drop s done \<noteq> []" using True Cons.prems by simp
    show ?thesis
      using True ih ne Cons.prems(1)
      by (simp add: splitScan_Cons_split go_slice_prefix del: splitScan.simps)
  next
    case False
    have ih: "usersetSlices ((done @ [u]) @ us) s
        (splitScan b t [] (cur + estimatedUsersetSize u) (cnt + 1) (length (done @ [u])) us) =
        Inr (specPartitions b t (drop s (done @ [u])) (cur + estimatedUsersetSize u) us)"
      using Cons.prems by (intro Cons.IH) auto
    have iff: "drop s done \<noteq> [] \<longleftrightarrow> 0 < cnt" using Cons.prems by auto
    have scan: "splitScan b t [] cur cnt (length done) (u # us) =
        splitScan b t [] (cur + estimatedUsersetSize u) (cnt + 1) (length done + 1) us"
      using False by (rule splitScan_Cons_keep)
    have spec: "specPartitions b t (drop s done) cur (u # us) =
        specPartitions b t (drop s done @ [u]) (cur + estimatedUsersetSize u) us"
      using False iff by auto
    have "drop s (done @ [u]) = drop s done @ [u]"
      using Cons.prems(1) by simp
    with ih show ?thesis
      unfolding scan spec by simp
  qed
qed

lemma usersetPartitions_eq:
  "usersetPartitions ctq =
     Inr (specPartitions (currentEstimatedSize (FilteredQueryBuilder ctq))
            (SplitAtEstimatedQuerySize ctq) []
            (currentEstimatedSize (FilteredQueryBuilder ctq)) (Usersets ctq))"
  using usersetSlices_refines [of 0 "[]" 0 "Usersets ctq"]
  by (simp add: usersetPartitions_def splitIndexesOf_def)

lemma concat_specPartitions:
  "concat (specPartitions b t current run us) = current @ us"
  by (induction us arbitrary: current run) simp_all

lemma specPartitions_nonempty:
  "current \<noteq> [] \<or> us \<noteq> [] \<Longrightarrow> p \<in> set (specPartitions b t current run us) \<Longrightarrow> p \<noteq> []"
proof (induction us arbitrary: current run)
  case Nil
  then show ?case by simp
next
  case (Cons u us)
  show ?case
  proof (cases "current \<noteq> [] \<and> estimatedUsersetSize u + run \<ge> t")
    case True
    then have "p = current \<or> p \<in> set (specPartitions b t [u] (b + estimatedUsersetSize u) us)"
      using Cons.prems(2) by simp
    then show ?thesis
    proof
      assume "p = current"
      with True show ?thesis by simp
    next
      assume "p \<in> set (specPartitions b t [u] (b + estimatedUsersetSize u) us)"
      with Cons.IH [of "[u]"] show ?thesis by simp
    qed
  next
    case False
    then have "p \<in> set (specPartitions b t (current @ [u]) (run + estimatedUsersetSize u) us)"
      using Cons.prems(2) by (simp split: if_splits)
    with Cons.IH [of "current @ [u]"] show ?thesis by simp
  qed
qed

lemma specPartitions_size:
  "run = partitionSize b current \<Longrightarrow> (2 \<le> length current \<longrightarrow> run < t) \<Longrightarrow>
   p \<in> set (specPartitions b t current run us) \<Longrightarrow> 2 \<le> length p \<Longrightarrow> partitionSize b p < t"
proof (induction us arbitrary: current run)
  case Nil
  then show ?case by simp
next
  case (Cons u us)
  show ?case
  proof (cases "current \<noteq> [] \<and> estimatedUsersetSize u + run \<ge> t")
    case True
    then have "p = current \<or> p \<in> set (specPartitions b t [u] (b + estimatedUsersetSize u) us)"
      using Cons.prems(3) by simp
    then show ?thesis
    proof
      assume "p = current"
      with Cons.prems show ?thesis by simp
    next
      assume mem: "p \<in> set (specPartitions b t [u] (b + estimatedUsersetSize u) us)"
      have "b + estimatedUsersetSize u = partitionSize b [u]"
        by (simp add: partitionSize_def)
      moreover have "2 \<le> length [u] \<longrightarrow> b + estimatedUsersetSize u < t"
        by simp
      ultimately show ?thesis
        using mem Cons.prems(4) by (rule Cons.IH)
    qed
  next
    case False
    then have mem: "p \<in> set (specPartitions b t (current @ [u]) (run + estimatedUsersetSize u) us)"
      using Cons.prems(3) by (simp split: if_splits)
    have "run + estimatedUsersetSize u = partitionSize b (current @ [u])"
      using Cons.prems(1) by (simp add: partitionSize_def)
    moreover have "2 \<le> length (current @ [u]) \<longrightarrow> run + estimatedUsersetSize u < t"
    proof
      assume "2 \<le> length (current @ [u])"
      then have "current \<noteq> []" by (cases current) simp_all
      with False show "run + estimatedUsersetSize u < t" by simp
    qed
    ultimately show ?thesis
      using mem Cons.prems(4) by (rule Cons.IH)
  qed
qed

lemma splitScan_bounds:
  "x \<in> set (splitScan b t [] cur cnt i us) \<Longrightarrow>
     i \<le> x \<and> x < i + length us \<and> (cnt = 0 \<longrightarrow> i < x)"
proof (induction us arbitrary: cur cnt i)
  case Nil
  then show ?case by simp
next
  case (Cons u us)
  show ?case
  proof (cases "0 < cnt \<and> estimatedUsersetSize u + cur \<ge> t")
    case True
    then have "x = i \<or> x \<in> set (splitScan b t [] (b + estimatedUsersetSize u) (cnt + 1) (i + 1) us)"
      using Cons.prems by (simp add: splitScan_Cons_split del: splitScan.simps)
    then show ?thesis
    proof
      assume "x = i"
      then show ?thesis using True by simp
    next
      assume "x \<in> set (splitScan b t [] (b + estimatedUsersetSize u) (cnt + 1) (i + 1) us)"
      from Cons.IH [OF this] show ?thesis using True by simp
    qed
  next
    case False
    then have "x \<in> set (splitScan b t [] (cur + estimatedUsersetSize u) (cnt + 1) (i + 1) us)"
      using Cons.prems by (simp add: splitScan_Cons_keep del: splitScan.simps)
    from Cons.IH [OF this] show ?thesis by simp
  qed
qed

lemma splitScan_increasing:
  "sorted_wrt (<) (splitScan b t [] cur cnt i us)"
proof (induction us arbitrary: cur cnt i)
  case Nil
  show ?case by simp
next
  case (Cons u us)
  show ?case
  proof (cases "0 < cnt \<and> estimatedUsersetSize u + cur \<ge> t")
    case True
    have "\<forall>x \<in> set (splitScan b t [] (b + estimatedUsersetSize u) (cnt + 1) (i + 1) us). i < x"
    proof
      fix x
      assume "x \<in> set (splitScan b t [] (b + estimatedUsersetSize u) (cnt + 1) (i + 1) us)"
      from splitScan_bounds [OF this] show "i < x" by simp
    qed
    then show ?thesis
      using True Cons.IH [of "b + estimatedUsersetSize u" "cnt + 1" "i + 1"]
      by (simp add: splitScan_Cons_split del: splitScan.simps)
  next
    case False
    then show ?thesis
      using Cons.IH [of "cur + estimatedUsersetSize u" "cnt + 1" "i + 1"]
      by (simp add: splitScan_Cons_keep del: splitScan.simps)
  qed
qed

lemma splitIndexesOf_bounds:
  "x \<in> set (splitIndexesOf ctq) \<Longrightarrow> 0 < x \<and> x < length (Usersets ctq)"
  using splitScan_bounds [of x _ _ _ 0 0 "Usersets ctq"] by (simp add: splitIndexesOf_def)

lemma buildQueries_slices:
  "usersetSlices usersets s sis = Inr parts \<Longrightarrow> \<forall>p \<in> set parts. p \<noteq> [] \<Longrightarrow>
   (case buildQueries fqb usersets qs s sis of
      Inl p \<Rightarrow> Inl p
    | Inr (queries, startIndex) \<Rightarrow>
        (case go_slice usersets startIndex (length usersets) of
           Inl p \<Rightarrow> Inl p
         | Inr part \<Rightarrow>
             (case FilterToUsersets fqb part of
                Inl p \<Rightarrow> Inl p
              | Inr query \<Rightarrow> Inr (queries @ [query])))) =
     Inr (qs @ map (\<lambda>part. projr (FilterToUsersets fqb part)) parts)"
proof (induction sis arbitrary: s qs parts)
  case Nil
  show ?case
  proof (cases "go_slice usersets s (length usersets)")
    case (Inl p)
    with Nil.prems(1) show ?thesis by simp
  next
    case part: (Inr part)
    with Nil.prems(1) have parts: "parts = [part]" by simp
    with Nil.prems(2) have "part \<noteq> []" by simp
    then obtain q where "FilterToUsersets fqb part = Inr q"
      using FilterToUsersets_Inr by blast
    with part parts show ?thesis by simp
  qed
next
  case (Cons si sis)
  show ?case
  proof (cases "go_slice usersets s si")
    case (Inl p)
    with Cons.prems(1) show ?thesis by simp
  next
    case part: (Inr part)
    show ?thesis
    proof (cases "usersetSlices usersets si sis")
      case (Inl p)
      with part Cons.prems(1) show ?thesis by simp
    next
      case rest: (Inr parts')
      with part Cons.prems(1) have parts: "parts = part # parts'" by simp
      from parts Cons.prems(2) have ne: "part \<noteq> []" "\<forall>p \<in> set parts'. p \<noteq> []"
        by simp_all
      from ne(1) obtain q where q: "FilterToUsersets fqb part = Inr q"
        using FilterToUsersets_Inr by blast
      show ?thesis
        using Cons.IH [OF rest ne(2), of "qs @ [q]"] part q parts by simp
    qed
  qed
qed

lemma splitQueries_nonempty:
  assumes "Usersets ctq \<noteq> []"
  shows "splitQueries ctq =
     Inr (map (\<lambda>part. projr (FilterToUsersets (FilteredQueryBuilder ctq) part))
            (specPartitions (currentEstimatedSize (FilteredQueryBuilder ctq))
               (SplitAtEstimatedQuerySize ctq) []
               (currentEstimatedSize (FilteredQueryBuilder ctq)) (Usersets ctq)))"
proof -
  let ?parts = "specPartitions (currentEstimatedSize (FilteredQueryBuilder ctq))
               (SplitAtEstimatedQuerySize ctq) []
               (currentEstimatedSize (FilteredQueryBuilder ctq)) (Usersets ctq)"
  have sl: "usersetSlices (Usersets ctq) 0 (splitIndexesOf ctq) = Inr ?parts"
    using usersetPartitions_eq [of ctq] by (simp add: usersetPartitions_def)
  have ne: "\<forall>p \<in> set ?parts. p \<noteq> []"
    using assms specPartitions_nonempty by blast
  show ?thesis
    using buildQueries_slices [OF sl ne, of "FilteredQueryBuilder ctq" "[]"] assms
    by (simp add: splitQueries_def)
qed

lemma splitQueries_no_panic: "\<exists>queries. splitQueries ctq = Inr queries \<and> queries \<noteq> []"
proof (cases "Usersets ctq = []")
  case True
  then show ?thesis by (simp add: splitQueries_def)
next
  case False
  with specPartitions_not_Nil show ?thesis by (simp add: splitQueries_nonempty)
qed

lemma map_FilterToUsersets_Inr:
  "\<forall>p \<in> set parts. p \<noteq> [] \<Longrightarrow>
   map Inr (map (\<lambda>part. projr (FilterToUsersets fqb part)) parts) = map (FilterToUsersets fqb) parts"
  by (induction parts) (auto simp: FilterToUsersets_nonempty)

lemma usersetPartitions_properties:
  assumes "Usersets ctq \<noteq> []"
  shows "\<exists>parts. usersetPartitions ctq = Inr parts \<and> concat parts = Usersets ctq
      \<and> (\<forall>p \<in> set parts. p \<noteq> [])
      \<and> (\<forall>p \<in> set parts. 2 \<le> length p \<longrightarrow>
            partitionSize (currentEstimatedSize (FilteredQueryBuilder ctq)) p
              < SplitAtEstimatedQuerySize ctq)"
proof -
  let ?b = "currentEstimatedSize (FilteredQueryBuilder ctq)"
  let ?parts = "specPartitions ?b (SplitAtEstimatedQuerySize ctq) [] ?b (Usersets ctq)"
  have "usersetPartitions ctq = Inr ?parts"
    by (rule usersetPartitions_eq)
  moreover have "concat ?parts = Usersets ctq"
    by (simp add: concat_specPartitions)
  moreover have "\<forall>p \<in> set ?parts. p \<noteq> []"
    using assms specPartitions_nonempty by blast
  moreover have "\<forall>p \<in> set ?parts. 2 \<le> length p \<longrightarrow>
      partitionSize ?b p < SplitAtEstimatedQuerySize ctq"
  proof (intro ballI impI)
    fix p
    assume "p \<in> set ?parts" and "2 \<le> length p"
    with specPartitions_size [of ?b ?b "[]" "SplitAtEstimatedQuerySize ctq" p "Usersets ctq"]
    show "partitionSize ?b p < SplitAtEstimatedQuerySize ctq"
      by (simp add: partitionSize_def)
  qed
  ultimately show ?thesis by blast
qed

lemma map_currentEstimatedSize_queries:
  "\<forall>p \<in> set parts. p \<noteq> [] \<Longrightarrow>
   map currentEstimatedSize (map (\<lambda>part. projr (FilterToUsersets fqb part)) parts) =
     map (partitionSize (currentEstimatedSize fqb)) parts"
  by (induction parts) (simp_all add: FilterToUsersets_nonempty partitionSize_def)

lemma splitQueries_partitions:
  assumes "Usersets ctq \<noteq> []"
  shows "\<exists>parts queries. splitQueries ctq = Inr queries
      \<and> map Inr queries = map (FilterToUsersets (FilteredQueryBuilder ctq)) parts
      \<and> map currentEstimatedSize queries =
          map (partitionSize (currentEstimatedSize (FilteredQueryBuilder ctq))) parts
      \<and> usersetPartitions ctq = Inr parts
      \<and> concat parts = Usersets ctq
      \<and> (\<forall>p \<in> set parts. p \<noteq> [])
      \<and> (\<forall>p \<in> set parts. 2 \<le> length p \<longrightarrow>
            partitionSize (currentEstimatedSize (FilteredQueryBuilder ctq)) p
              < SplitAtEstimatedQuerySize ctq)"
proof -
  let ?b = "currentEstimatedSize (FilteredQueryBuilder ctq)"
  let ?parts = "specPartitions ?b (SplitAtEstimatedQuerySize ctq) [] ?b (Usersets ctq)"
  let ?queries = "map (\<lambda>part. projr (FilterToUsersets (FilteredQueryBuilder ctq) part)) ?parts"
  from usersetPartitions_properties [OF assms] usersetPartitions_eq [of ctq]
  have parts: "usersetPartitions ctq = Inr ?parts" "concat ?parts = Usersets ctq"
    and ne: "\<forall>p \<in> set ?parts. p \<noteq> []"
    and small: "\<forall>p \<in> set ?parts. 2 \<le> length p \<longrightarrow>
      partitionSize ?b p < SplitAtEstimatedQuerySize ctq"
    by auto
  have queries: "splitQueries ctq = Inr ?queries"
    using assms by (rule splitQueries_nonempty)
  have built: "map Inr ?queries = map (FilterToUsersets (FilteredQueryBuilder ctq)) ?parts"
    using ne by (rule map_FilterToUsersets_Inr)
  have sizes: "map currentEstimatedSize ?queries = map (partitionSize ?b) ?parts"
    using ne by (rule map_currentEstimatedSize_queries)
  from queries built sizes parts ne small show ?thesis by blast
qed

lemma scenarioSplitter_queries:
  "splitQueries scenarioSplitter = Inr [scenarioQueryOne, scenarioQueryTwo]"
  by (simp add: splitQueries_def splitIndexesOf_def scenarioSplitter_def go_slice_def
      FilterToUsersets_def estimatedUsersetSize_def usersetA_def usersetB_def usersetC_def
      exampleBuilder_def NewSchemaQueryFilterer_def scenarioQueryOne_def scenarioQueryTwo_def)

lemma scenarioSplitter_partitions:
  "usersetPartitions scenarioSplitter = Inr [[usersetA, usersetB], [usersetC]]"
  by (simp add: usersetPartitions_def splitIndexesOf_def scenarioSplitter_def go_slice_def
      estimatedUsersetSize_def usersetA_def usersetB_def usersetC_def
      exampleBuilder_def NewSchemaQueryFilterer_def)

lemma mixedSplitter_partitions:
  "usersetPartitions mixedSplitter = Inr [[usersetA, usersetB], [userset15]]"
  by (simp add: usersetPartitions_def splitIndexesOf_def mixedSplitter_def go_slice_def
      estimatedUsersetSize_def usersetA_def usersetB_def userset15_def FilterToResourceType_def
      exampleBuilder_def NewSchemaQueryFilterer_def)

lemma mixedSplitter_base:
  "currentEstimatedSize (FilteredQueryBuilder mixedSplitter) = 10"
  "SplitAtEstimatedQuerySize mixedSplitter = 20"
  by (simp_all add: mixedSplitter_def FilterToResourceType_def exampleBuilder_def
      NewSchemaQueryFilterer_def)

text \<open>
  Claim C1. For a non-empty userset list the split is a single scan from left to right
  with a running size that starts at the base builder's estimated size: a partition is
  closed just before a userset exactly when the current partition already holds a userset
  and the userset's size plus the running size reaches the threshold; the running size is
  then the base size again and the userset opens the next partition. The slices the code
  takes at its split indexes are the partitions of this rule (\<open>specPartitions\<close>, written
  from the specification), and the queries are \<^verbatim>\<open>FilterToUsersets\<close> of these partitions.
  With the threshold 20 and the base size 0, usersets of the sizes 2, 4 and 19 give two
  partitions: the first two usersets, and the third alone.
\<close>

theorem split_scan_refines_specification:
  assumes "Usersets ctq \<noteq> []"
  shows "usersetPartitions ctq =
           Inr (specPartitions (currentEstimatedSize (FilteredQueryBuilder ctq))
                  (SplitAtEstimatedQuerySize ctq) []
                  (currentEstimatedSize (FilteredQueryBuilder ctq)) (Usersets ctq))
       \<and> (\<exists>queries. splitQueries ctq = Inr queries
             \<and> map Inr queries =
                 map (FilterToUsersets (FilteredQueryBuilder ctq))
                   (specPartitions (currentEstimatedSize (FilteredQueryBuilder ctq))
                      (SplitAtEstimatedQuerySize ctq) []
                      (currentEstimatedSize (FilteredQueryBuilder ctq)) (Usersets ctq)))
       \<and> (SplitAtEstimatedQuerySize ctq = 20
            \<and> currentEstimatedSize (FilteredQueryBuilder ctq) = 0
            \<and> map estimatedUsersetSize (Usersets ctq) = [2, 4, 19]
          \<longrightarrow> usersetPartitions ctq = Inr [take 2 (Usersets ctq), drop 2 (Usersets ctq)])"
proof -
  let ?b = "currentEstimatedSize (FilteredQueryBuilder ctq)"
  let ?parts = "specPartitions ?b (SplitAtEstimatedQuerySize ctq) [] ?b (Usersets ctq)"
  have parts: "usersetPartitions ctq = Inr ?parts"
    by (rule usersetPartitions_eq)
  have ne: "\<forall>p \<in> set ?parts. p \<noteq> []"
    using assms specPartitions_nonempty by blast
  have queries: "\<exists>queries. splitQueries ctq = Inr queries
      \<and> map Inr queries = map (FilterToUsersets (FilteredQueryBuilder ctq)) ?parts"
    using splitQueries_nonempty [OF assms] map_FilterToUsersets_Inr [OF ne] by simp
  have scenario: "usersetPartitions ctq = Inr [take 2 (Usersets ctq), drop 2 (Usersets ctq)]"
    if thr: "SplitAtEstimatedQuerySize ctq = 20" and base: "?b = 0"
      and sizes: "map estimatedUsersetSize (Usersets ctq) = [2, 4, 19]"
  proof -
    from sizes obtain a b c where us: "Usersets ctq = [a, b, c]"
      and "estimatedUsersetSize a = 2" "estimatedUsersetSize b = 4" "estimatedUsersetSize c = 19"
      by auto
    then show ?thesis
      using thr base by (simp add: parts)
  qed
  show ?thesis
  proof (intro conjI impI)
    show "usersetPartitions ctq = Inr ?parts" by (rule parts)
    show "\<exists>queries. splitQueries ctq = Inr queries
      \<and> map Inr queries = map (FilterToUsersets (FilteredQueryBuilder ctq)) ?parts"
      by (rule queries)
    assume "SplitAtEstimatedQuerySize ctq = 20 \<and> ?b = 0
      \<and> map estimatedUsersetSize (Usersets ctq) = [2, 4, 19]"
    then show "usersetPartitions ctq = Inr [take 2 (Usersets ctq), drop 2 (Usersets ctq)]"
      using scenario by simp
  qed
qed

theorem split_scan_refines_specification_witness:
  "Usersets scenarioSplitter \<noteq> []
   \<and> map estimatedUsersetSize (Usersets scenarioSplitter) = [2, 4, 19]
   \<and> usersetPartitions scenarioSplitter = Inr [[usersetA, usersetB], [usersetC]]"
proof -
  have ne: "Usersets scenarioSplitter \<noteq> []"
    by (simp add: scenarioSplitter_def)
  have sizes: "map estimatedUsersetSize (Usersets scenarioSplitter) = [2, 4, 19]"
    by (simp add: scenarioSplitter_def estimatedUsersetSize_def usersetA_def usersetB_def
        usersetC_def)
  have "SplitAtEstimatedQuerySize scenarioSplitter = 20"
    and "currentEstimatedSize (FilteredQueryBuilder scenarioSplitter) = 0"
    by (simp_all add: scenarioSplitter_def exampleBuilder_def NewSchemaQueryFilterer_def)
  with split_scan_refines_specification [OF ne] sizes
  have "usersetPartitions scenarioSplitter =
      Inr [take 2 (Usersets scenarioSplitter), drop 2 (Usersets scenarioSplitter)]"
    by blast
  then show ?thesis
    using ne sizes by (simp add: scenarioSplitter_def)
qed

text \<open>
  Claim C2, as amended. For a non-empty userset list the queries of the call are
  \<^verbatim>\<open>FilterToUsersets\<close> of the partitions, the estimated size of each query is the size of its
  partition (base size plus the sizes of its members), no userset is lost, and every
  partition has an estimated size strictly under the threshold, except a partition of a
  single userset whose size together with the base size reaches or exceeds the threshold.
  (The claim as stated excepts only a userset whose own size exceeds the threshold:
  \<open>partition_sizes_counterexample\<close> below has base size 10, threshold 20 and one userset
  of size 15, whose query has the estimated size 25.)
\<close>

theorem partition_sizes_under_threshold_or_singleton:
  assumes "Usersets ctq \<noteq> []"
  shows "\<exists>parts queries. splitQueries ctq = Inr queries
      \<and> map Inr queries = map (FilterToUsersets (FilteredQueryBuilder ctq)) parts
      \<and> map currentEstimatedSize queries =
          map (partitionSize (currentEstimatedSize (FilteredQueryBuilder ctq))) parts
      \<and> usersetPartitions ctq = Inr parts
      \<and> concat parts = Usersets ctq
      \<and> (\<forall>p \<in> set parts.
            partitionSize (currentEstimatedSize (FilteredQueryBuilder ctq)) p
              < SplitAtEstimatedQuerySize ctq
            \<or> (\<exists>u. p = [u]
                 \<and> SplitAtEstimatedQuerySize ctq
                     \<le> currentEstimatedSize (FilteredQueryBuilder ctq) + estimatedUsersetSize u))"
proof -
  let ?b = "currentEstimatedSize (FilteredQueryBuilder ctq)"
  let ?t = "SplitAtEstimatedQuerySize ctq"
  from splitQueries_partitions [OF assms] obtain parts queries where
    code: "splitQueries ctq = Inr queries"
      "map Inr queries = map (FilterToUsersets (FilteredQueryBuilder ctq)) parts"
      "map currentEstimatedSize queries = map (partitionSize ?b) parts"
      "usersetPartitions ctq = Inr parts" "concat parts = Usersets ctq"
    and ne: "\<forall>p \<in> set parts. p \<noteq> []"
    and small: "\<forall>p \<in> set parts. 2 \<le> length p \<longrightarrow> partitionSize ?b p < ?t"
    by blast
  have "partitionSize ?b p < ?t \<or> (\<exists>u. p = [u] \<and> ?t \<le> ?b + estimatedUsersetSize u)"
    if p: "p \<in> set parts" for p
  proof (cases "2 \<le> length p")
    case True
    with small p show ?thesis by blast
  next
    case False
    moreover from ne p have "p \<noteq> []" by blast
    ultimately obtain u where u: "p = [u]"
      by (cases p) (auto simp: Suc_le_eq)
    then have "partitionSize ?b p = ?b + estimatedUsersetSize u"
      by (simp add: partitionSize_def)
    with u show ?thesis by auto
  qed
  with code show ?thesis by blast
qed

theorem partition_sizes_under_threshold_or_singleton_witness:
  "Usersets mixedSplitter \<noteq> []
   \<and> usersetPartitions mixedSplitter = Inr [[usersetA, usersetB], [userset15]]
   \<and> map_sum id (map currentEstimatedSize) (splitQueries mixedSplitter) = Inr [16, 25]
   \<and> partitionSize (currentEstimatedSize (FilteredQueryBuilder mixedSplitter)) [usersetA, usersetB]
       = 16
   \<and> partitionSize (currentEstimatedSize (FilteredQueryBuilder mixedSplitter)) [usersetA, usersetB]
       < SplitAtEstimatedQuerySize mixedSplitter
   \<and> partitionSize (currentEstimatedSize (FilteredQueryBuilder mixedSplitter)) [userset15] = 25
   \<and> SplitAtEstimatedQuerySize mixedSplitter
       \<le> currentEstimatedSize (FilteredQueryBuilder mixedSplitter) + estimatedUsersetSize userset15"
proof -
  let ?b = "currentEstimatedSize (FilteredQueryBuilder mixedSplitter)"
  let ?t = "SplitAtEstimatedQuerySize mixedSplitter"
  have ne: "Usersets mixedSplitter \<noteq> []"
    by (simp add: mixedSplitter_def)
  from partition_sizes_under_threshold_or_singleton [OF ne] obtain parts queries where
    queries: "splitQueries mixedSplitter = Inr queries"
    and sizes: "map currentEstimatedSize queries = map (partitionSize ?b) parts"
    and parts: "usersetPartitions mixedSplitter = Inr parts"
    and bound: "\<forall>p \<in> set parts. partitionSize ?b p < ?t
            \<or> (\<exists>u. p = [u] \<and> ?t \<le> ?b + estimatedUsersetSize u)"
    by blast
  from parts have parts_eq: "parts = [[usersetA, usersetB], [userset15]]"
    by (simp add: mixedSplitter_partitions)
  have sizeAB: "partitionSize ?b [usersetA, usersetB] = 16"
    and size15: "partitionSize ?b [userset15] = 25"
    by (simp_all add: mixedSplitter_base partitionSize_def estimatedUsersetSize_def
        usersetA_def usersetB_def userset15_def)
  from bound parts_eq have "partitionSize ?b [usersetA, usersetB] < ?t
      \<or> (\<exists>u. [usersetA, usersetB] = [u] \<and> ?t \<le> ?b + estimatedUsersetSize u)"
    by simp
  then have under: "partitionSize ?b [usersetA, usersetB] < ?t"
    by simp
  from bound parts_eq have "partitionSize ?b [userset15] < ?t
      \<or> (\<exists>u. [userset15] = [u] \<and> ?t \<le> ?b + estimatedUsersetSize u)"
    by simp
  with size15 have over: "?t \<le> ?b + estimatedUsersetSize userset15"
    by (simp add: mixedSplitter_base)
  from queries sizes parts_eq sizeAB size15
  have "map_sum id (map currentEstimatedSize) (splitQueries mixedSplitter) = Inr [16, 25]"
    by simp
  with ne sizeAB size15 under over show ?thesis
    by (simp add: mixedSplitter_partitions)
qed

theorem partition_sizes_counterexample:
  "usersetPartitions filteredSplitter = Inr [[userset15]]
   \<and> map_sum id (map currentEstimatedSize) (splitQueries filteredSplitter) = Inr [25]
   \<and> partitionSize (currentEstimatedSize (FilteredQueryBuilder filteredSplitter)) [userset15] = 25
   \<and> SplitAtEstimatedQuerySize filteredSplitter = 20
   \<and> estimatedUsersetSize userset15 = 15
   \<and> \<not> (\<forall>p \<in> set [[userset15]].
          partitionSize (currentEstimatedSize (FilteredQueryBuilder filteredSplitter)) p
            < SplitAtEstimatedQuerySize filteredSplitter
          \<or> (\<exists>u. p = [u] \<and> SplitAtEstimatedQuerySize filteredSplitter < estimatedUsersetSize u))"
proof -
  have "splitQueries filteredSplitter =
      Inr [projr (FilterToUsersets (FilteredQueryBuilder filteredSplitter) [userset15])]"
    by (simp add: splitQueries_def splitIndexesOf_def filteredSplitter_def go_slice_def
        FilterToUsersets_nonempty)
  then have "map_sum id (map currentEstimatedSize) (splitQueries filteredSplitter) = Inr [25]"
    by (simp add: FilterToUsersets_nonempty filteredSplitter_def FilterToResourceType_def
        exampleBuilder_def NewSchemaQueryFilterer_def estimatedUsersetSize_def userset15_def)
  moreover have "usersetPartitions filteredSplitter = Inr [[userset15]]"
    by (simp add: usersetPartitions_def splitIndexesOf_def filteredSplitter_def go_slice_def)
  moreover have "partitionSize (currentEstimatedSize (FilteredQueryBuilder filteredSplitter))
      [userset15] = 25"
    "SplitAtEstimatedQuerySize filteredSplitter = 20" "estimatedUsersetSize userset15 = 15"
    by (simp_all add: filteredSplitter_def partitionSize_def estimatedUsersetSize_def
        userset15_def FilterToResourceType_def exampleBuilder_def NewSchemaQueryFilterer_def)
  ultimately show ?thesis by simp
qed

text \<open>
  Claim C5. For a non-empty userset list and any threshold, the queries of the call are
  \<^verbatim>\<open>FilterToUsersets\<close> of the partitions, one query per partition in order, and the
  partitions concatenated in their order are the userset list itself.
\<close>

theorem partitions_concat_to_usersets:
  assumes "Usersets ctq \<noteq> []"
  shows "\<exists>parts queries. splitQueries ctq = Inr queries
      \<and> map Inr queries = map (FilterToUsersets (FilteredQueryBuilder ctq)) parts
      \<and> usersetPartitions ctq = Inr parts
      \<and> concat parts = Usersets ctq"
  using splitQueries_partitions [OF assms] by blast

theorem partitions_concat_to_usersets_witness:
  "Usersets scenarioSplitter \<noteq> []
   \<and> splitQueries scenarioSplitter = Inr [scenarioQueryOne, scenarioQueryTwo]
   \<and> map Inr [scenarioQueryOne, scenarioQueryTwo] =
       map (FilterToUsersets (FilteredQueryBuilder scenarioSplitter))
         [[usersetA, usersetB], [usersetC]]
   \<and> usersetPartitions scenarioSplitter = Inr [[usersetA, usersetB], [usersetC]]
   \<and> concat [[usersetA, usersetB], [usersetC]] = Usersets scenarioSplitter"
proof -
  have ne: "Usersets scenarioSplitter \<noteq> []"
    by (simp add: scenarioSplitter_def)
  from partitions_concat_to_usersets [OF ne] obtain parts queries where
    queries: "splitQueries scenarioSplitter = Inr queries"
    and built: "map Inr queries = map (FilterToUsersets (FilteredQueryBuilder scenarioSplitter)) parts"
    and parts: "usersetPartitions scenarioSplitter = Inr parts"
    and whole: "concat parts = Usersets scenarioSplitter"
    by blast
  from parts have parts_eq: "parts = [[usersetA, usersetB], [usersetC]]"
    by (simp add: scenarioSplitter_partitions)
  from queries have queries_eq: "queries = [scenarioQueryOne, scenarioQueryTwo]"
    by (simp add: scenarioSplitter_queries)
  from ne queries built parts whole show ?thesis
    unfolding parts_eq queries_eq by blast
qed

text \<open>
  Claim C9. For a non-empty userset list the split indexes are strictly increasing, above
  zero and below the length of the list; so every slice handed to \<^verbatim>\<open>FilterToUsersets\<close>
  is non-empty, building the queries does not panic, and \<^verbatim>\<open>SplitAndExecute\<close> returns.
\<close>

theorem split_slices_never_empty:
  assumes "Usersets ctq \<noteq> []"
  shows "sorted_wrt (<) (splitIndexesOf ctq)
     \<and> (\<forall>i \<in> set (splitIndexesOf ctq). 0 < i \<and> i < length (Usersets ctq))
     \<and> (\<exists>parts queries. usersetPartitions ctq = Inr parts \<and> (\<forall>p \<in> set parts. p \<noteq> [])
          \<and> splitQueries ctq = Inr queries
          \<and> map Inr queries = map (FilterToUsersets (FilteredQueryBuilder ctq)) parts)
     \<and> (\<exists>result. SplitAndExecute env ctq = Inr result)"
proof -
  let ?b = "currentEstimatedSize (FilteredQueryBuilder ctq)"
  let ?parts = "specPartitions ?b (SplitAtEstimatedQuerySize ctq) [] ?b (Usersets ctq)"
  have sorted: "sorted_wrt (<) (splitIndexesOf ctq)"
    by (simp add: splitIndexesOf_def splitScan_increasing)
  have bounds: "\<forall>i \<in> set (splitIndexesOf ctq). 0 < i \<and> i < length (Usersets ctq)"
    using splitIndexesOf_bounds by blast
  have parts: "usersetPartitions ctq = Inr ?parts"
    by (rule usersetPartitions_eq)
  have ne: "\<forall>p \<in> set ?parts. p \<noteq> []"
    using assms specPartitions_nonempty by blast
  obtain queries where queries: "splitQueries ctq = Inr queries"
    "map Inr queries = map (FilterToUsersets (FilteredQueryBuilder ctq)) ?parts"
    using splitQueries_nonempty [OF assms] map_FilterToUsersets_Inr [OF ne] by simp
  have "SplitAndExecute env ctq = Inr (executeLoop env ctq [] 0 queries)"
    by (simp add: SplitAndExecute_def queries(1))
  with sorted bounds parts ne queries show ?thesis by blast
qed

theorem split_slices_never_empty_witness:
  "Usersets scenarioSplitter \<noteq> []
   \<and> splitIndexesOf scenarioSplitter = [2]
   \<and> sorted_wrt (<) (splitIndexesOf scenarioSplitter)
   \<and> (\<exists>parts queries. usersetPartitions scenarioSplitter = Inr parts
        \<and> splitQueries scenarioSplitter = Inr queries
        \<and> map Inr queries = map (FilterToUsersets (FilteredQueryBuilder scenarioSplitter)) parts)"
proof -
  have ne: "Usersets scenarioSplitter \<noteq> []"
    by (simp add: scenarioSplitter_def)
  have "splitIndexesOf scenarioSplitter = [2]"
    by (simp add: splitIndexesOf_def scenarioSplitter_def estimatedUsersetSize_def usersetA_def
        usersetB_def usersetC_def exampleBuilder_def NewSchemaQueryFilterer_def)
  with ne split_slices_never_empty [OF ne] show ?thesis by blast
qed

subsection \<open>The row limit as a 64-bit word\<close>

lemma uint_lower64: "- (2 ^ 63) \<le> uint (w :: 64 word)"
proof -
  have "(- (2 ^ 63) :: int) \<le> 0" by simp
  also have "0 \<le> uint w" by simp
  finally show ?thesis .
qed

lemma sint_as_signed_take_bit64: "sint (w :: 64 word) = signed_take_bit 63 (uint w)"
  using sint_uint [of w] by simp

lemma uint_upper63:
  assumes "unat (w :: 64 word) < 2 ^ 63" 
  shows "uint w < 2 ^ 63"
proof -
  from assms have "int (unat w) < int (2 ^ 63)"
    by (simp only: of_nat_less_iff)
  also have "int (2 ^ 63) = 2 ^ 63" by simp
  finally show ?thesis by (simp only: uint_nat)
qed

lemma signed_take_bit_uint63:
  assumes "uint (w :: 64 word) < 2 ^ 63" 
  shows "signed_take_bit 63 (uint w) = uint w"
  using uint_lower64 [of w] assms by (rule signed_take_bit_int_eq_self)

lemma sint_eq_unat64: 
  assumes "unat (w :: 64 word) < 2 ^ 63" 
  shows "sint w = int (unat w)"
proof -
  have "sint w = signed_take_bit 63 (uint w)" by (rule sint_as_signed_take_bit64)
  also have "\<dots> = uint w" using assms by (intro signed_take_bit_uint63 uint_upper63)
  also have "\<dots> = int (unat w)" by (rule uint_nat)
  finally show ?thesis .
qed

lemma sint_le_uint64: "sint (w :: 64 word) \<le> uint w"
proof -
  have "signed_take_bit 63 (uint w) \<le> uint w"
    by (rule signed_take_bit_int_less_eq_self_iff [THEN iffD2]) (rule uint_lower64)
  then show ?thesis
    by (simp only: sint_as_signed_take_bit64)
qed

lemma unat_sub_of_nat64: "k \<le> unat (L :: 64 word) \<Longrightarrow> unat (L - of_nat k) = unat L - k"
  by (simp add: le_unat_uoi unat_sub word_le_nat_alt)

lemma below_cap_less_unat:
  assumes "int n < sint (limit :: 64 word)"
  shows "n < unat limit"
proof -
  from assms sint_le_uint64 [of limit] have "int n < uint limit" by (rule less_le_trans)
  then show ?thesis by (simp only: uint_nat of_nat_less_iff)
qed

subsection \<open>The row loop\<close>

lemma rowsLoop_Cons_cap:
  "0 < limit \<Longrightarrow> sint limit \<le> int (length tuples) \<Longrightarrow>
   rowsLoop limit tuples (r # rs) err = (tuples, None)"
  by simp

lemma rowsLoop_Cons_Scanned:
  "\<not> (0 < limit \<and> sint limit \<le> int (length tuples)) \<Longrightarrow>
   rowsLoop limit tuples (Scanned t # rs) err = rowsLoop limit (tuples @ [t]) rs err"
  by auto

lemma rowsLoop_Cons_ScanError:
  "\<not> (0 < limit \<and> sint limit \<le> int (length tuples)) \<Longrightarrow>
   rowsLoop limit tuples (ScanError cause # rs) err =
     ([], Some (Errorf errUnableToQueryTuples cause))"
  by auto

lemma rowsLoop_error_shape:
  "rowsLoop limit tuples rs err = (ts, Some e) \<Longrightarrow>
   ts = [] \<and> (\<exists>cause. e = Errorf errUnableToQueryTuples cause)"
proof (induction rs arbitrary: tuples)
  case Nil
  then show ?case by (cases err) auto
next
  case (Cons r rs)
  show ?case
  proof (cases "limit > 0 \<and> int (length tuples) \<ge> sint limit")
    case True
    with Cons.prems show ?thesis by simp
  next
    case False
    show ?thesis
    proof (cases r)
      case (Scanned nextTuple)
      with False Cons.prems have "rowsLoop limit (tuples @ [nextTuple]) rs err = (ts, Some e)"
        by (simp add: rowsLoop_Cons_Scanned del: rowsLoop.simps)
      then show ?thesis by (rule Cons.IH)
    next
      case (ScanError cause)
      with False Cons.prems show ?thesis
        by (auto simp add: rowsLoop_Cons_ScanError simp del: rowsLoop.simps)
    qed
  qed
qed

lemma rowsLoop_cap:
  "0 < limit \<Longrightarrow> length tuples \<le> unat limit \<Longrightarrow> rowsLoop limit tuples rs err = (ts, None) \<Longrightarrow>
   length ts \<le> unat limit"
proof (induction rs arbitrary: tuples)
  case Nil
  then show ?case by (cases err) simp_all
next
  case (Cons r rs)
  show ?case
  proof (cases "int (length tuples) \<ge> sint limit")
    case True
    with Cons.prems show ?thesis by simp
  next
    case False
    then have below: "length tuples < unat limit"
      by (intro below_cap_less_unat) simp
    show ?thesis
    proof (cases r)
      case (Scanned nextTuple)
      with False Cons.prems have run: "rowsLoop limit (tuples @ [nextTuple]) rs err = (ts, None)"
        by (simp add: rowsLoop_Cons_Scanned del: rowsLoop.simps)
      from below have "length (tuples @ [nextTuple]) \<le> unat limit" by simp
      with Cons.prems(1) show ?thesis using run by (rule Cons.IH)
    next
      case (ScanError cause)
      with False Cons.prems show ?thesis
        by (simp add: rowsLoop_Cons_ScanError del: rowsLoop.simps)
    qed
  qed
qed

lemma rowsLoop_decoding_fails:
  "limit = 0 \<or> int (length tuples + length decoded) < sint limit \<Longrightarrow>
   rowsLoop limit tuples (map Scanned decoded @ ScanError cause # later) err =
     ([], Some (Errorf errUnableToQueryTuples cause))"
proof (induction decoded arbitrary: tuples)
  case Nil
  then have "\<not> (limit > 0 \<and> int (length tuples) \<ge> sint limit)" by auto
  then show ?case by (simp add: rowsLoop_Cons_ScanError del: rowsLoop.simps)
next
  case (Cons d decoded)
  from Cons.prems have nocap: "\<not> (limit > 0 \<and> int (length tuples) \<ge> sint limit)" by auto
  from Cons.prems have "limit = 0 \<or> int (length (tuples @ [d]) + length decoded) < sint limit"
    by simp
  then have "rowsLoop limit (tuples @ [d]) (map Scanned decoded @ ScanError cause # later) err =
      ([], Some (Errorf errUnableToQueryTuples cause))"
    by (rule Cons.IH)
  with nocap show ?case by (simp add: rowsLoop_Cons_Scanned del: rowsLoop.simps)
qed

lemma rowsLoop_iteration_fails:
  "limit = 0 \<or> decoded = [] \<or> int (length tuples + length decoded) - 1 < sint limit \<Longrightarrow>
   rowsLoop limit tuples (map Scanned decoded) (Some cause) =
     ([], Some (Errorf errUnableToQueryTuples cause))"
proof (induction decoded arbitrary: tuples)
  case Nil
  show ?case by simp
next
  case (Cons d decoded)
  from Cons.prems have nocap: "\<not> (limit > 0 \<and> int (length tuples) \<ge> sint limit)" by auto
  from Cons.prems
  have "limit = 0 \<or> decoded = [] \<or> int (length (tuples @ [d]) + length decoded) - 1 < sint limit"
    by auto
  then have "rowsLoop limit (tuples @ [d]) (map Scanned decoded) (Some cause) =
      ([], Some (Errorf errUnableToQueryTuples cause))"
    by (rule Cons.IH)
  with nocap show ?case by (simp add: rowsLoop_Cons_Scanned del: rowsLoop.simps)
qed

lemma rowsLoop_error_cases:
  "rowsLoop limit tuples rs err = (ts, Some e) \<Longrightarrow>
   \<exists>cause. e = Errorf errUnableToQueryTuples cause
     \<and> ((\<exists>decoded later. rs = map Scanned decoded @ ScanError cause # later
            \<and> (limit = 0 \<or> int (length tuples + length decoded) < sint limit))
        \<or> (\<exists>decoded. rs = map Scanned decoded \<and> err = Some cause
            \<and> (limit = 0 \<or> decoded = [] \<or> int (length tuples + length decoded) - 1 < sint limit)))"
proof (induction rs arbitrary: tuples)
  case Nil
  then obtain cause where "err = Some cause" "e = Errorf errUnableToQueryTuples cause"
    by (cases err) auto
  then show ?case by simp
next
  case (Cons r rs)
  have nocap: "\<not> (0 < limit \<and> sint limit \<le> int (length tuples))"
  proof
    assume "0 < limit \<and> sint limit \<le> int (length tuples)"
    with Cons.prems show False by (simp add: rowsLoop_Cons_cap del: rowsLoop.simps)
  qed
  then have below: "limit = 0 \<or> int (length tuples) < sint limit"
    by (auto simp: word_gt_0)
  show ?case
  proof (cases r)
    case (ScanError cause)
    with nocap Cons.prems have "e = Errorf errUnableToQueryTuples cause"
      by (auto simp add: rowsLoop_Cons_ScanError simp del: rowsLoop.simps)
    moreover have "r # rs = map Scanned [] @ ScanError cause # rs"
      using ScanError by simp
    moreover have "limit = 0 \<or> int (length tuples + length ([] :: RelationTuple list)) < sint limit"
      using below by simp
    ultimately show ?thesis by blast
  next
    case (Scanned t)
    with nocap Cons.prems have "rowsLoop limit (tuples @ [t]) rs err = (ts, Some e)"
      by (simp add: rowsLoop_Cons_Scanned del: rowsLoop.simps)
    from Cons.IH [OF this] obtain cause where e: "e = Errorf errUnableToQueryTuples cause"
      and alt: "(\<exists>decoded later. rs = map Scanned decoded @ ScanError cause # later
            \<and> (limit = 0 \<or> int (length (tuples @ [t]) + length decoded) < sint limit))
        \<or> (\<exists>decoded. rs = map Scanned decoded \<and> err = Some cause
            \<and> (limit = 0 \<or> decoded = []
                 \<or> int (length (tuples @ [t]) + length decoded) - 1 < sint limit))"
      by blast
    from alt show ?thesis
    proof
      assume "\<exists>decoded later. rs = map Scanned decoded @ ScanError cause # later
            \<and> (limit = 0 \<or> int (length (tuples @ [t]) + length decoded) < sint limit)"
      then obtain decoded later where rs: "rs = map Scanned decoded @ ScanError cause # later"
        and lim: "limit = 0 \<or> int (length (tuples @ [t]) + length decoded) < sint limit"
        by blast
      have "r # rs = map Scanned (t # decoded) @ ScanError cause # later"
        using rs Scanned by simp
      moreover have "limit = 0 \<or> int (length tuples + length (t # decoded)) < sint limit"
        using lim by simp
      ultimately have "\<exists>decoded later. r # rs = map Scanned decoded @ ScanError cause # later
            \<and> (limit = 0 \<or> int (length tuples + length decoded) < sint limit)"
        by (intro exI [of _ "t # decoded"] exI [of _ later] conjI)
      with e show ?thesis by (intro exI [of _ cause] conjI disjI1)
    next
      assume "\<exists>decoded. rs = map Scanned decoded \<and> err = Some cause
            \<and> (limit = 0 \<or> decoded = []
                 \<or> int (length (tuples @ [t]) + length decoded) - 1 < sint limit)"
      then obtain decoded where rs: "rs = map Scanned decoded" and err: "err = Some cause"
        and lim: "limit = 0 \<or> decoded = []
                 \<or> int (length (tuples @ [t]) + length decoded) - 1 < sint limit"
        by blast
      have "r # rs = map Scanned (t # decoded)"
        using rs Scanned by simp
      moreover have "limit = 0 \<or> t # decoded = []
          \<or> int (length tuples + length (t # decoded)) - 1 < sint limit"
        using lim below by auto
      ultimately have "\<exists>decoded. r # rs = map Scanned decoded \<and> err = Some cause
            \<and> (limit = 0 \<or> decoded = []
                 \<or> int (length tuples + length decoded) - 1 < sint limit)"
        using err by (intro exI [of _ "t # decoded"] conjI)
      with e show ?thesis by (intro exI [of _ cause] conjI disjI2)
    qed
  qed
qed

lemma rowsLoop_no_limit:
  "rowsLoop 0 tuples (map Scanned served) None = (tuples @ served, None)"
  by (induction served arbitrary: tuples) simp_all

lemma rowsLoop_served:
  assumes "unat limit < 2 ^ 63" and "0 < limit"
  shows "length tuples \<le> unat limit \<Longrightarrow>
     rowsLoop limit tuples (map Scanned served) None = (take (unat limit) (tuples @ served), None)"
proof (induction served arbitrary: tuples)
  case Nil
  then show ?case by simp
next
  case (Cons d served)
  have sint: "sint limit = int (unat limit)"
    using assms(1) by (rule sint_eq_unat64)
  show ?case
  proof (cases "length tuples = unat limit")
    case True
    with assms(2) sint show ?thesis by simp
  next
    case False
    with Cons.prems have "length (tuples @ [d]) \<le> unat limit" by simp
    then have "rowsLoop limit (tuples @ [d]) (map Scanned served) None =
        (take (unat limit) ((tuples @ [d]) @ served), None)"
      by (rule Cons.IH)
    moreover have "\<not> int (length tuples) \<ge> sint limit"
    proof -
      from False Cons.prems have "length tuples < unat limit" by simp
      then have "int (length tuples) < int (unat limit)" by (simp only: of_nat_less_iff)
      then show ?thesis by (simp only: sint not_le)
    qed
    ultimately show ?thesis by (simp add: rowsLoop_Cons_Scanned del: rowsLoop.simps)
  qed
qed

lemma rowsLoop_negative_cap:
  "sint limit < 0 \<Longrightarrow> rowsLoop limit [] (r # rs) err = ([], None)"
proof -
  assume neg: "sint limit < 0"
  then have "limit \<noteq> 0" by auto
  then have "0 < limit" by (simp add: word_gt_0)
  with neg show ?thesis by simp
qed

subsection \<open>One query\<close>

lemma prepared_cases:
  "(case PrepareTransaction ctq of None \<Rightarrow> None | Some prepare \<Rightarrow> prepare index (Revision ctq)) = None
   \<longleftrightarrow> PrepareTransaction ctq = None
       \<or> (\<exists>prepare. PrepareTransaction ctq = Some prepare \<and> prepare index (Revision ctq) = None)"
  by (cases "PrepareTransaction ctq") simp_all

lemma executeSingleQuery_prepared:
  "ToSql env (queryBuilder query) = Inr (sql, args) \<Longrightarrow> BeginTx env index = None \<Longrightarrow>
   (case PrepareTransaction ctq of None \<Rightarrow> None | Some prepare \<Rightarrow> prepare index (Revision ctq))
     = None \<Longrightarrow>
   executeSingleQuery env ctq query index limit =
     (case Query env index sql args of
        Inl err \<Rightarrow> ([], Some (Errorf errUnableToQueryTuples err))
      | Inr rows \<Rightarrow> rowsLoop limit [] (rowsList rows) (rowsErr rows))"
  by (simp add: executeSingleQuery_def)

lemma executeSingleQuery_rows:
  assumes "ToSql env (queryBuilder query) = Inr (sql, args)" and "BeginTx env index = None"
    and "PrepareTransaction ctq = None
     \<or> (\<exists>prepare. PrepareTransaction ctq = Some prepare \<and> prepare index (Revision ctq) = None)"
    and "Query env index sql args = Inr rows"
  shows "executeSingleQuery env ctq query index limit =
     rowsLoop limit [] (rowsList rows) (rowsErr rows)"
proof -
  from assms(3) have "(case PrepareTransaction ctq of None \<Rightarrow> None
      | Some prepare \<Rightarrow> prepare index (Revision ctq)) = None"
    by (simp only: prepared_cases)
  from executeSingleQuery_prepared [OF assms(1,2) this] assms(4) show ?thesis by simp
qed

lemma stageFails_executeSingleQuery:
  assumes "stageFails env ctq query index limit cause"
  shows "executeSingleQuery env ctq query index limit =
     ([], Some (Errorf errUnableToQueryTuples cause))"
  using assms
proof cases
  case failsRendering
  then show ?thesis by (simp add: executeSingleQuery_def)
next
  case (failsBegin sql args)
  then show ?thesis by (simp add: executeSingleQuery_def)
next
  case (failsPreparation sql args prepare)
  then show ?thesis by (simp add: executeSingleQuery_def)
next
  case (failsStatement sql args)
  from failsStatement(3) have "(case PrepareTransaction ctq of None \<Rightarrow> None
      | Some prepare \<Rightarrow> prepare index (Revision ctq)) = None"
    by (simp only: prepared_cases)
  from executeSingleQuery_prepared [OF failsStatement(1,2) this] failsStatement(4)
  show ?thesis by simp
next
  case (failsDecoding sql args rows decoded later)
  have "rowsLoop limit [] (map Scanned decoded @ ScanError cause # later) (rowsErr rows) =
      ([], Some (Errorf errUnableToQueryTuples cause))"
    using failsDecoding(6) by (intro rowsLoop_decoding_fails) simp
  with failsDecoding show ?thesis by (simp add: executeSingleQuery_rows)
next
  case (failsIteration sql args rows decoded)
  have "rowsLoop limit [] (map Scanned decoded) (Some cause) =
      ([], Some (Errorf errUnableToQueryTuples cause))"
    using failsIteration(7) by (intro rowsLoop_iteration_fails) simp
  with failsIteration show ?thesis by (simp add: executeSingleQuery_rows)
qed

lemma executeSingleQuery_error_stage:
  assumes "executeSingleQuery env ctq query index limit = (ts, Some e)"
  shows "ts = [] \<and> (\<exists>cause. e = Errorf errUnableToQueryTuples cause
     \<and> stageFails env ctq query index limit cause)"
proof (cases "ToSql env (queryBuilder query)")
  case (Inl cause)
  with assms have "ts = []" "e = Errorf errUnableToQueryTuples cause"
    by (auto simp: executeSingleQuery_def)
  with Inl show ?thesis by (auto intro: failsRendering)
next
  case (Inr rendered)
  obtain sql args where rendered: "rendered = (sql, args)" by (cases rendered)
  note tosql = Inr [unfolded rendered]
  show ?thesis
  proof (cases "BeginTx env index")
    case (Some cause)
    with assms tosql have "ts = []" "e = Errorf errUnableToQueryTuples cause"
      by (auto simp: executeSingleQuery_def)
    with tosql Some show ?thesis by (auto intro: failsBegin)
  next
    case None
    show ?thesis
    proof (cases "case PrepareTransaction ctq of None \<Rightarrow> None
        | Some prepare \<Rightarrow> prepare index (Revision ctq)")
      case (Some cause)
      then obtain prepare where prep: "PrepareTransaction ctq = Some prepare"
        "prepare index (Revision ctq) = Some cause"
        by (cases "PrepareTransaction ctq") simp_all
      from assms tosql None Some have "ts = []" "e = Errorf errUnableToQueryTuples cause"
        by (auto simp: executeSingleQuery_def)
      with tosql None prep show ?thesis by (auto intro: failsPreparation)
    next
      case prepared: None
      then have prep: "PrepareTransaction ctq = None
        \<or> (\<exists>prepare. PrepareTransaction ctq = Some prepare \<and> prepare index (Revision ctq) = None)"
        by (simp only: prepared_cases)
      show ?thesis
      proof (cases "Query env index sql args")
        case (Inl cause)
        with assms tosql None prepared have "ts = []" "e = Errorf errUnableToQueryTuples cause"
          by (auto simp: executeSingleQuery_def)
        with stageFails.failsStatement [OF tosql None prep Inl] show ?thesis by blast
      next
        case (Inr rows)
        with assms tosql None prep
        have run: "rowsLoop limit [] (rowsList rows) (rowsErr rows) = (ts, Some e)"
          by (simp add: executeSingleQuery_rows)
        from rowsLoop_error_shape [OF run] have ts: "ts = []" by simp
        from rowsLoop_error_cases [OF run] obtain cause where
          e: "e = Errorf errUnableToQueryTuples cause"
          and alt: "(\<exists>decoded later. rowsList rows = map Scanned decoded @ ScanError cause # later
              \<and> (limit = 0 \<or> int (length decoded) < sint limit))
            \<or> (\<exists>decoded. rowsList rows = map Scanned decoded \<and> rowsErr rows = Some cause
              \<and> (limit = 0 \<or> decoded = [] \<or> int (length decoded) - 1 < sint limit))"
          by auto
        from alt have "stageFails env ctq query index limit cause"
        proof
          assume "\<exists>decoded later. rowsList rows = map Scanned decoded @ ScanError cause # later
              \<and> (limit = 0 \<or> int (length decoded) < sint limit)"
          then obtain decoded later where
            "rowsList rows = map Scanned decoded @ ScanError cause # later"
            "limit = 0 \<or> int (length decoded) < sint limit"
            by blast
          with tosql None prep Inr show ?thesis by (rule stageFails.failsDecoding)
        next
          assume "\<exists>decoded. rowsList rows = map Scanned decoded \<and> rowsErr rows = Some cause
              \<and> (limit = 0 \<or> decoded = [] \<or> int (length decoded) - 1 < sint limit)"
          then obtain decoded where
            "rowsList rows = map Scanned decoded" "rowsErr rows = Some cause"
            "limit = 0 \<or> decoded = [] \<or> int (length decoded) - 1 < sint limit"
            by blast
          with tosql None prep Inr show ?thesis by (rule stageFails.failsIteration)
        qed
        with ts e show ?thesis by blast
      qed
    qed
  qed
qed

lemma executeSingleQuery_cap:
  assumes "0 < limit" and "executeSingleQuery env ctq query index limit = (ts, None)"
  shows "length ts \<le> unat limit"
proof -
  have "\<exists>rs err. rowsLoop limit [] rs err = (ts, None)"
    using assms(2)
    by (auto simp: executeSingleQuery_def split: sum.splits option.splits prod.splits)
  then obtain rs err where "rowsLoop limit [] rs err = (ts, None)" by blast
  with assms(1) show ?thesis
    using rowsLoop_cap [of limit "[]" rs err ts] by simp
qed

subsection \<open>The execution loop and its failures\<close>

lemma runQuery_not_Break: "runQuery env ctq tuples index query newLimit \<noteq> Break"
  by (simp add: runQuery_def split: prod.splits option.splits)

lemma runQuery_Failed:
  "runQuery env ctq tuples index query newLimit = Failed e \<longleftrightarrow>
   (\<exists>found. executeSingleQuery env ctq query index newLimit = (found, Some e))"
  by (simp add: runQuery_def split: prod.splits option.splits)

lemma runQuery_Continue:
  "runQuery env ctq tuples index query newLimit = Continue tuples' \<longleftrightarrow>
   (\<exists>found. executeSingleQuery env ctq query index newLimit = (found, None)
      \<and> tuples' = tuples @ found)"
  by (auto simp add: runQuery_def split: prod.splits option.splits)

lemma loopBody_unlimited:
  "Limit ctq = None \<Longrightarrow> loopBody env ctq tuples index query = runQuery env ctq tuples index query 0"
  by (simp add: loopBody_def)

lemma loopBody_exhausted:
  "Limit ctq = Some limit \<Longrightarrow> limit - of_nat (length tuples) = 0 \<Longrightarrow>
   loopBody env ctq tuples index query = Break"
  by (simp add: loopBody_def)

lemma loopBody_limited:
  "Limit ctq = Some limit \<Longrightarrow> limit - of_nat (length tuples) \<noteq> 0 \<Longrightarrow>
   loopBody env ctq tuples index query =
     runQuery env ctq tuples index
       (SchemaQueryFilterer_Limit query (limit - of_nat (length tuples)))
       (limit - of_nat (length tuples))"
  by (simp add: loopBody_def Let_def)

lemma loopBody_Break:
  "loopBody env ctq tuples index query = Break \<longleftrightarrow>
   (\<exists>limit. Limit ctq = Some limit \<and> limit - of_nat (length tuples) = 0)"
proof (cases "Limit ctq")
  case None
  then show ?thesis by (simp add: loopBody_unlimited runQuery_not_Break)
next
  case (Some limit)
  then show ?thesis
    by (cases "limit - of_nat (length tuples) = 0")
      (simp_all add: loopBody_exhausted loopBody_limited runQuery_not_Break)
qed

lemma executeLoop_after_Break:
  assumes "loopBody env ctq tuples index query = Break"
  shows "executeLoop env ctq tuples index' queries = (Some tuples, None)"
proof (cases queries)
  case Nil
  then show ?thesis by simp
next
  case (Cons query' rest)
  from assms have "loopBody env ctq tuples index' query' = Break"
    by (simp only: loopBody_Break)
  with Cons show ?thesis by simp
qed

lemma executeLoop_append:
  "executeLoop env ctq tuples index pre = (Some tuples', None) \<Longrightarrow>
   executeLoop env ctq tuples index (pre @ rest) =
     executeLoop env ctq tuples' (index + length pre) rest"
proof (induction pre arbitrary: tuples index)
  case Nil
  then show ?case by simp
next
  case (Cons query pre)
  show ?case
  proof (cases "loopBody env ctq tuples index query")
    case Break
    with Cons.prems have "tuples' = tuples" by simp
    with Break executeLoop_after_Break [OF Break] show ?thesis by simp
  next
    case (Failed e)
    with Cons.prems show ?thesis by simp
  next
    case (Continue grown)
    with Cons.prems have "executeLoop env ctq grown (index + 1) pre = (Some tuples', None)"
      by simp
    from Cons.IH [OF this] Continue show ?thesis by simp
  qed
qed

lemma loopBody_Failed_stage:
  assumes "loopBody env ctq tuples index query = Failed e"
  shows "\<exists>cause query' limit. e = Errorf errUnableToQueryTuples cause
     \<and> stageFails env ctq query' index limit cause"
proof -
  from assms obtain query' limit where
    "runQuery env ctq tuples index query' limit = Failed e"
    by (cases "Limit ctq") (auto simp: loopBody_def Let_def split: if_splits)
  then obtain found where "executeSingleQuery env ctq query' index limit = (found, Some e)"
    by (auto simp: runQuery_Failed)
  from executeSingleQuery_error_stage [OF this] show ?thesis by blast
qed

lemma executeLoop_outcome:
  "executeLoop env ctq tuples index queries = (result, err) \<Longrightarrow>
   (err = None \<and> (\<exists>ts. result = Some ts))
   \<or> (result = None \<and> (\<exists>cause query' index' limit.
         err = Some (Errorf errUnableToQueryTuples cause)
         \<and> stageFails env ctq query' index' limit cause))"
proof (induction queries arbitrary: tuples index)
  case Nil
  then show ?case by auto
next
  case (Cons query queries)
  show ?case
  proof (cases "loopBody env ctq tuples index query")
    case Break
    with Cons.prems show ?thesis by auto
  next
    case (Failed e)
    with Cons.prems have "result = None" "err = Some e" by auto
    with loopBody_Failed_stage [OF Failed] show ?thesis by blast
  next
    case (Continue grown)
    with Cons.prems have "executeLoop env ctq grown (index + 1) queries = (result, err)"
      by simp
    then show ?thesis by (rule Cons.IH)
  qed
qed

lemma executeLoop_stage_failure:
  assumes "(Limit ctq = None \<and> stageFails env ctq query index 0 cause)
     \<or> (\<exists>limit. Limit ctq = Some limit \<and> limit - of_nat (length tuples) \<noteq> 0
          \<and> stageFails env ctq
               (SchemaQueryFilterer_Limit query (limit - of_nat (length tuples))) index
               (limit - of_nat (length tuples)) cause)"
  shows "executeLoop env ctq tuples index (query # post) =
     (None, Some (Errorf errUnableToQueryTuples cause))"
proof -
  have "loopBody env ctq tuples index query = Failed (Errorf errUnableToQueryTuples cause)"
    using assms
  proof
    assume a: "Limit ctq = None \<and> stageFails env ctq query index 0 cause"
    then have "executeSingleQuery env ctq query index 0 =
        ([], Some (Errorf errUnableToQueryTuples cause))"
      by (intro stageFails_executeSingleQuery) simp
    with a show ?thesis by (simp add: loopBody_unlimited runQuery_Failed)
  next
    assume "\<exists>limit. Limit ctq = Some limit \<and> limit - of_nat (length tuples) \<noteq> 0
          \<and> stageFails env ctq
               (SchemaQueryFilterer_Limit query (limit - of_nat (length tuples))) index
               (limit - of_nat (length tuples)) cause"
    then obtain limit where limit: "Limit ctq = Some limit"
      "limit - of_nat (length tuples) \<noteq> 0"
      and fails: "stageFails env ctq
               (SchemaQueryFilterer_Limit query (limit - of_nat (length tuples))) index
               (limit - of_nat (length tuples)) cause"
      by blast
    from stageFails_executeSingleQuery [OF fails] limit show ?thesis
      by (simp add: loopBody_limited runQuery_Failed)
  qed
  then show ?thesis by simp
qed

lemma formatW_errUnableToQueryTuples:
  "formatW errUnableToQueryTuples msg = ''unable to query tuples: '' @ msg"
  by (simp add: errUnableToQueryTuples_def)

lemma renderSql_scenario:
  "renderSql (queryBuilder scenarioQueryOne) = Inr (''SELECT'', [])"
  "renderSql (queryBuilder scenarioQueryTwo) = Inr (''SELECT'', [])"
  by (simp_all add: renderSql_def scenarioQueryOne_def scenarioQueryTwo_def
      SelectBuilder_Where_def exampleQuery_def)

text \<open>
  Claim C3. A call never returns tuples together with an error: when \<^verbatim>\<open>SplitAndExecute\<close>
  returns an error the iterator is nil, and the error wraps, with the format
  \<^verbatim>\<open>unable to query tuples: %w\<close>, the cause of a failure at one of the six stages of a
  query. And when the earlier queries have run without error and collected some tuples,
  and the next query is reached (the limit is not used up) and fails at any stage (SQL
  rendering, transaction begin, preparation hook, statement execution, row decoding, error
  at the end of the row iteration), the call returns nil and that one wrapped error; the
  collected tuples are dropped.
\<close>

theorem failure_aborts_whole_call:
  "(\<forall>result e. SplitAndExecute env ctq = Inr (result, Some e) \<longrightarrow>
      result = None
      \<and> (\<exists>cause query' index' limit. e = Errorf errUnableToQueryTuples cause
            \<and> stageFails env ctq query' index' limit cause))
   \<and> (splitQueries ctq = Inr (pre @ query # post)
        \<and> executeLoop env ctq [] 0 pre = (Some tuples, None)
        \<and> ((Limit ctq = None \<and> stageFails env ctq query (length pre) 0 cause)
           \<or> (\<exists>limit. Limit ctq = Some limit \<and> limit - of_nat (length tuples) \<noteq> 0
                \<and> stageFails env ctq
                     (SchemaQueryFilterer_Limit query (limit - of_nat (length tuples)))
                     (length pre) (limit - of_nat (length tuples)) cause))
      \<longrightarrow> SplitAndExecute env ctq = Inr (None, Some (Errorf errUnableToQueryTuples cause))
          \<and> Error (Errorf errUnableToQueryTuples cause) = ''unable to query tuples: '' @ Error cause
          \<and> Unwrap (Errorf errUnableToQueryTuples cause) = Some cause)"
proof (intro conjI allI impI)
  fix result e
  assume call: "SplitAndExecute env ctq = Inr (result, Some e)"
  then obtain queries where "executeLoop env ctq [] 0 queries = (result, Some e)"
    by (auto simp: SplitAndExecute_def split: sum.splits)
  from executeLoop_outcome [OF this]
  have "result = None \<and> (\<exists>cause query' index' limit.
         Some e = Some (Errorf errUnableToQueryTuples cause)
         \<and> stageFails env ctq query' index' limit cause)"
    by simp
  then show "result = None" 
    and "\<exists>cause query' index' limit. e = Errorf errUnableToQueryTuples cause
            \<and> stageFails env ctq query' index' limit cause"
    by auto
next
  assume hyp: "splitQueries ctq = Inr (pre @ query # post)
        \<and> executeLoop env ctq [] 0 pre = (Some tuples, None)
        \<and> ((Limit ctq = None \<and> stageFails env ctq query (length pre) 0 cause)
           \<or> (\<exists>limit. Limit ctq = Some limit \<and> limit - of_nat (length tuples) \<noteq> 0
                \<and> stageFails env ctq
                     (SchemaQueryFilterer_Limit query (limit - of_nat (length tuples)))
                     (length pre) (limit - of_nat (length tuples)) cause))"
  then have queries: "splitQueries ctq = Inr (pre @ query # post)"
    and before: "executeLoop env ctq [] 0 pre = (Some tuples, None)"
    and fails: "(Limit ctq = None \<and> stageFails env ctq query (length pre) 0 cause)
           \<or> (\<exists>limit. Limit ctq = Some limit \<and> limit - of_nat (length tuples) \<noteq> 0
                \<and> stageFails env ctq
                     (SchemaQueryFilterer_Limit query (limit - of_nat (length tuples)))
                     (length pre) (limit - of_nat (length tuples)) cause)"
    by blast+
  have "executeLoop env ctq [] 0 (pre @ query # post) =
      executeLoop env ctq tuples (0 + length pre) (query # post)"
    using before by (rule executeLoop_append)
  also have "\<dots> = (None, Some (Errorf errUnableToQueryTuples cause))"
    using executeLoop_stage_failure [OF fails] by simp
  finally show "SplitAndExecute env ctq = Inr (None, Some (Errorf errUnableToQueryTuples cause))"
    using queries by (simp add: SplitAndExecute_def)
next
  show "Error (Errorf errUnableToQueryTuples cause) = ''unable to query tuples: '' @ Error cause"
    by (simp add: formatW_errUnableToQueryTuples)
next
  show "Unwrap (Errorf errUnableToQueryTuples cause) = Some cause"
    by simp
qed

theorem failure_aborts_whole_call_witness:
  "splitQueries scenarioSplitter = Inr ([scenarioQueryOne] @ scenarioQueryTwo # [])
   \<and> executeLoop decodeFailEnv scenarioSplitter [] 0 [scenarioQueryOne] = (Some [tupleOne], None)
   \<and> Limit scenarioSplitter = None
   \<and> stageFails decodeFailEnv scenarioSplitter scenarioQueryTwo (length [scenarioQueryOne]) 0
        (Cause ''cannot scan'')
   \<and> SplitAndExecute decodeFailEnv scenarioSplitter
       = Inr (None, Some (Errorf errUnableToQueryTuples (Cause ''cannot scan'')))
   \<and> Error (Errorf errUnableToQueryTuples (Cause ''cannot scan''))
       = ''unable to query tuples: cannot scan''"
proof -
  have queries: "splitQueries scenarioSplitter = Inr ([scenarioQueryOne] @ scenarioQueryTwo # [])"
    by (simp add: scenarioSplitter_queries)
  have before: "executeLoop decodeFailEnv scenarioSplitter [] 0 [scenarioQueryOne] =
      (Some [tupleOne], None)"
    by (simp add: loopBody_def runQuery_def executeSingleQuery_def decodeFailEnv_def
        renderSql_scenario scenarioSplitter_def)
  have unlimited: "Limit scenarioSplitter = None"
    by (simp add: scenarioSplitter_def)
  have fails: "stageFails decodeFailEnv scenarioSplitter scenarioQueryTwo
      (length [scenarioQueryOne]) 0 (Cause ''cannot scan'')"
  proof (rule stageFails.failsDecoding)
    show "ToSql decodeFailEnv (queryBuilder scenarioQueryTwo) = Inr (''SELECT'', [])"
      by (simp add: decodeFailEnv_def renderSql_scenario)
    show "BeginTx decodeFailEnv (length [scenarioQueryOne]) = None"
      by (simp add: decodeFailEnv_def)
    show "PrepareTransaction scenarioSplitter = None
       \<or> (\<exists>prepare. PrepareTransaction scenarioSplitter = Some prepare
            \<and> prepare (length [scenarioQueryOne]) (Revision scenarioSplitter) = None)"
      by (simp add: scenarioSplitter_def)
    show "Query decodeFailEnv (length [scenarioQueryOne]) ''SELECT'' [] =
        Inr \<lparr>rowsList = [Scanned tupleOne, ScanError (Cause ''cannot scan'')], rowsErr = None\<rparr>"
      by (simp add: decodeFailEnv_def)
    show "rowsList \<lparr>rowsList = [Scanned tupleOne, ScanError (Cause ''cannot scan'')], rowsErr = None\<rparr>
        = map Scanned [tupleOne] @ ScanError (Cause ''cannot scan'') # []"
      by simp
    show "(0 :: 64 word) = 0 \<or> int (length [tupleOne]) < sint (0 :: 64 word)"
      by simp
  qed
  from failure_aborts_whole_call
    [of decodeFailEnv scenarioSplitter "[scenarioQueryOne]" scenarioQueryTwo "[]" "[tupleOne]"
      "Cause ''cannot scan''"]
    queries before unlimited fails
  have "SplitAndExecute decodeFailEnv scenarioSplitter
       = Inr (None, Some (Errorf errUnableToQueryTuples (Cause ''cannot scan'')))
     \<and> Error (Errorf errUnableToQueryTuples (Cause ''cannot scan''))
       = ''unable to query tuples: '' @ Error (Cause ''cannot scan'')"
    by blast
  with queries before unlimited fails show ?thesis by simp
qed

subsection \<open>The global limit\<close>

lemma loopBody_Continue_cap:
  assumes "Limit ctq = Some limit" and "length tuples \<le> unat limit"
    and "loopBody env ctq tuples index query = Continue tuples'"
  shows "length tuples' \<le> unat limit"
proof -
  let ?newLimit = "limit - of_nat (length tuples)"
  have nonzero: "?newLimit \<noteq> 0"
  proof
    assume "?newLimit = 0"
    with assms(1) have "loopBody env ctq tuples index query = Break"
      by (rule loopBody_exhausted)
    with assms(3) show False by simp
  qed
  with assms(1,3) obtain found where
    found: "executeSingleQuery env ctq (SchemaQueryFilterer_Limit query ?newLimit) index ?newLimit
      = (found, None)"
    and tuples': "tuples' = tuples @ found"
    by (auto simp: loopBody_limited runQuery_Continue)
  from nonzero have "0 < ?newLimit" by (simp add: word_gt_0)
  from executeSingleQuery_cap [OF this found] have "length found \<le> unat ?newLimit" .
  also have "unat ?newLimit = unat limit - length tuples"
    using assms(2) by (rule unat_sub_of_nat64)
  finally show ?thesis using assms(2) tuples' by simp
qed

lemma loopState_cap:
  assumes "Limit ctq = Some limit" and "loopState env ctq queries index tuples"
  shows "length tuples \<le> unat limit"
  using assms(2)
proof induction
  case loopStart
  show ?case by simp
next
  case (loopNext index tuples tuples')
  from assms(1) loopNext.IH loopNext.hyps(3) show ?case
    by (rule loopBody_Continue_cap)
qed

lemma loopState_executeLoop:
  assumes "loopState env ctq queries index tuples"
  shows "executeLoop env ctq [] 0 queries = executeLoop env ctq tuples index (drop index queries)"
  using assms
proof induction
  case loopStart
  show ?case by simp
next
  case (loopNext index tuples tuples')
  from loopNext.hyps(2) have "drop index queries = queries ! index # drop (index + 1) queries"
    by (simp add: Cons_nth_drop_Suc)
  with loopNext.hyps(3) loopNext.IH show ?case by simp
qed

lemma executeLoop_cap:
  "Limit ctq = Some limit \<Longrightarrow> length tuples \<le> unat limit \<Longrightarrow>
   executeLoop env ctq tuples index queries = (Some ts, None) \<Longrightarrow> length ts \<le> unat limit"
proof (induction queries arbitrary: tuples index)
  case Nil
  then show ?case by simp
next
  case (Cons query queries)
  show ?case
  proof (cases "loopBody env ctq tuples index query")
    case Break
    with Cons.prems show ?thesis by simp
  next
    case (Failed e)
    with Cons.prems show ?thesis by simp
  next
    case (Continue grown)
    with Cons.prems have run: "executeLoop env ctq grown (index + 1) queries = (Some ts, None)"
      by simp
    from Cons.prems(1,2) Continue have "length grown \<le> unat limit"
      by (rule loopBody_Continue_cap)
    with Cons.prems(1) show ?thesis using run by (rule Cons.IH)
  qed
qed

lemma limitedSplitter_queries:
  "splitQueries limitedSplitter = Inr [scenarioQueryOne, scenarioQueryTwo]"
  by (simp add: splitQueries_def splitIndexesOf_def limitedSplitter_def scenarioSplitter_def
      go_slice_def FilterToUsersets_def estimatedUsersetSize_def usersetA_def usersetB_def
      usersetC_def exampleBuilder_def NewSchemaQueryFilterer_def scenarioQueryOne_def
      scenarioQueryTwo_def)

lemma renderSql_limited:
  "renderSql (queryBuilder (SchemaQueryFilterer_Limit scenarioQueryOne l)) = Inr (''SELECT'', [])"
  "renderSql (queryBuilder (SchemaQueryFilterer_Limit scenarioQueryTwo l)) = Inr (''SELECT'', [])"
  by (simp_all add: renderSql_def scenarioQueryOne_def scenarioQueryTwo_def
      SelectBuilder_Where_def SelectBuilder_Limit_def SchemaQueryFilterer_Limit_def
      exampleQuery_def)

lemma limitedSplitter_first_turn:
  "loopBody servingEnv limitedSplitter [] index scenarioQueryOne = Continue [tupleOne, tupleTwo]"
  by (simp add: loopBody_def runQuery_def executeSingleQuery_def servingEnv_def
      renderSql_limited limitedSplitter_def scenarioSplitter_def)

lemma limitedSplitter_second_turn:
  "loopBody servingEnv limitedSplitter [tupleOne, tupleTwo] index scenarioQueryTwo
     = Continue [tupleOne, tupleTwo, tupleOne]"
  by (simp add: loopBody_def runQuery_def executeSingleQuery_def servingEnv_def
      renderSql_limited limitedSplitter_def scenarioSplitter_def)

text \<open>
  Claim C10. With a global limit, in every state in which the execution loop stands at
  the head of a turn the number of collected tuples is at most the limit, so the unsigned
  subtraction \<^verbatim>\<open>*ctq.Limit - uint64(len(tuples))\<close> does not wrap around; a query returns at
  most its cap; the loop is a structural recursion over the queries, the call returns, and
  a call that returns tuples returns at most as many as the limit.
\<close>

theorem limit_invariant:
  assumes "Limit ctq = Some limit" and "loopState env ctq queries index tuples"
  shows "length tuples \<le> unat limit
     \<and> unat (limit - of_nat (length tuples)) = unat limit - length tuples
     \<and> (\<forall>query i cap found.
           0 < cap \<and> executeSingleQuery env ctq query i cap = (found, None)
           \<longrightarrow> length found \<le> unat cap)
     \<and> executeLoop env ctq [] 0 queries = executeLoop env ctq tuples index (drop index queries)
     \<and> (\<exists>outcome. SplitAndExecute env ctq = Inr outcome)
     \<and> (\<forall>result. SplitAndExecute env ctq = Inr (Some result, None)
           \<longrightarrow> length result \<le> unat limit)"
proof (intro conjI allI impI)
  show cap: "length tuples \<le> unat limit"
    using assms by (rule loopState_cap)
  then show "unat (limit - of_nat (length tuples)) = unat limit - length tuples"
    by (rule unat_sub_of_nat64)
next
  fix query i cap found
  assume "0 < cap \<and> executeSingleQuery env ctq query i cap = (found, None)"
  then show "length found \<le> unat cap"
    using executeSingleQuery_cap by blast
next
  show "executeLoop env ctq [] 0 queries = executeLoop env ctq tuples index (drop index queries)"
    using assms(2) by (rule loopState_executeLoop)
next
  from splitQueries_no_panic [of ctq] obtain qs where "splitQueries ctq = Inr qs" by blast
  then show "\<exists>outcome. SplitAndExecute env ctq = Inr outcome"
    by (simp add: SplitAndExecute_def)
next
  fix result
  assume "SplitAndExecute env ctq = Inr (Some result, None)"
  then obtain qs where "executeLoop env ctq [] 0 qs = (Some result, None)"
    by (auto simp: SplitAndExecute_def split: sum.splits)
  with assms(1) show "length result \<le> unat limit"
    using executeLoop_cap [of ctq limit "[]" env 0 qs result] by simp
qed

theorem limit_invariant_witness:
  "Limit limitedSplitter = Some 3
   \<and> loopState servingEnv limitedSplitter [scenarioQueryOne, scenarioQueryTwo] 1
       [tupleOne, tupleTwo]
   \<and> length [tupleOne, tupleTwo] \<le> unat (3 :: 64 word)
   \<and> unat ((3 :: 64 word) - of_nat (length [tupleOne, tupleTwo])) = 1
   \<and> SplitAndExecute servingEnv limitedSplitter = Inr (Some [tupleOne, tupleTwo, tupleOne], None)"
proof -
  have limit: "Limit limitedSplitter = Some 3"
    by (simp add: limitedSplitter_def)
  have "loopState servingEnv limitedSplitter [scenarioQueryOne, scenarioQueryTwo] (0 + 1)
       [tupleOne, tupleTwo]"
    by (rule loopNext [OF loopStart]) (simp_all add: limitedSplitter_first_turn)
  then have state: "loopState servingEnv limitedSplitter [scenarioQueryOne, scenarioQueryTwo] 1
       [tupleOne, tupleTwo]"
    by simp
  have call: "SplitAndExecute servingEnv limitedSplitter
      = Inr (Some [tupleOne, tupleTwo, tupleOne], None)"
    by (simp add: SplitAndExecute_def limitedSplitter_queries limitedSplitter_first_turn
        limitedSplitter_second_turn)
  from limit_invariant [OF limit state]
  have "length [tupleOne, tupleTwo] \<le> unat (3 :: 64 word)
     \<and> unat ((3 :: 64 word) - of_nat (length [tupleOne, tupleTwo]))
         = unat (3 :: 64 word) - length [tupleOne, tupleTwo]"
    by blast
  with limit state call show ?thesis by simp
qed

lemma take_append_take:
  "length xs \<le> n \<Longrightarrow> take n (xs @ take (n - length xs) ys @ zs) = take n (xs @ ys @ zs)"
  by (simp add: min_def)

lemma executeSingleQuery_served:
  assumes serves: "backendServes env ctq queries avail" and index: "index < length queries"
    and cap: "0 < cap" "unat cap < 2 ^ 63"
  shows "executeSingleQuery env ctq (SchemaQueryFilterer_Limit (queries ! index) cap) index cap =
     (take (unat cap) (avail index), None)"
proof -
  let ?builder = "queryBuilder (SchemaQueryFilterer_Limit (queries ! index) cap)"
  from serves index have begun: "BeginTx env index = None"
    and prepared: "(case PrepareTransaction ctq of None \<Rightarrow> True
           | Some prepare \<Rightarrow> prepare index (Revision ctq) = None)"
    and answers: "\<exists>sql args served.
              ToSql env ?builder = Inr (sql, args)
              \<and> Query env index sql args = Inr \<lparr>rowsList = map Scanned served, rowsErr = None\<rparr>
              \<and> take (unat cap) served = take (unat cap) (avail index)"
    by (simp_all add: backendServes_def)
  from answers obtain sql args served where
    tosql: "ToSql env ?builder = Inr (sql, args)"
    and query: "Query env index sql args = Inr \<lparr>rowsList = map Scanned served, rowsErr = None\<rparr>"
    and served: "take (unat cap) served = take (unat cap) (avail index)"
    by blast
  from prepared have prep: "PrepareTransaction ctq = None
     \<or> (\<exists>prepare. PrepareTransaction ctq = Some prepare \<and> prepare index (Revision ctq) = None)"
    by (cases "PrepareTransaction ctq") simp_all
  have "executeSingleQuery env ctq (SchemaQueryFilterer_Limit (queries ! index) cap) index cap =
      rowsLoop cap [] (map Scanned served) None"
    using executeSingleQuery_rows [OF tosql begun prep query] by simp
  also have "\<dots> = (take (unat cap) ([] @ served), None)"
    using cap(2,1) by (rule rowsLoop_served) simp
  finally show ?thesis using served by simp
qed

lemma executeLoop_served:
  assumes limit: "Limit ctq = Some limit" "unat limit < 2 ^ 63"
    and serves: "backendServes env ctq queries avail"
  shows "length tuples \<le> unat limit \<Longrightarrow> rest = drop index queries \<Longrightarrow>
     executeLoop env ctq tuples index rest =
       (Some (take (unat limit) (tuples @ concat (map avail [index..<length queries]))), None)"
proof (induction rest arbitrary: tuples index)
  case Nil
  then have "length queries \<le> index" by simp
  with Nil.prems(1) show ?case by simp
next
  case (Cons query rest)
  from Cons.prems(2) have index: "index < length queries"
    by (cases "index < length queries") simp_all
  with Cons.prems(2) have query: "query = queries ! index" and rest: "rest = drop (index + 1) queries"
    by (simp_all flip: Cons_nth_drop_Suc)
  let ?cap = "limit - of_nat (length tuples)"
  have cap: "unat ?cap = unat limit - length tuples"
    using Cons.prems(1) by (rule unat_sub_of_nat64)
  show ?case
  proof (cases "length tuples = unat limit")
    case True
    with cap have "?cap = 0" by (simp add: unat_eq_0)
    with limit(1) have "loopBody env ctq tuples index query = Break"
      by (rule loopBody_exhausted)
    with True show ?thesis by simp
  next
    case False
    with cap Cons.prems(1) have pos: "?cap \<noteq> 0" by (auto simp: unat_eq_0)
    then have "0 < ?cap" by (simp add: word_gt_0)
    moreover from cap limit(2) have "unat ?cap < 2 ^ 63" by simp
    ultimately have "executeSingleQuery env ctq (SchemaQueryFilterer_Limit (queries ! index) ?cap)
        index ?cap = (take (unat ?cap) (avail index), None)"
      using serves index by (intro executeSingleQuery_served)
    with limit(1) pos query have turn: "loopBody env ctq tuples index query =
        Continue (tuples @ take (unat limit - length tuples) (avail index))"
      by (simp add: loopBody_limited runQuery_Continue cap)
    have "length (tuples @ take (unat limit - length tuples) (avail index)) \<le> unat limit"
      using Cons.prems(1) by simp
    then have "executeLoop env ctq (tuples @ take (unat limit - length tuples) (avail index))
        (index + 1) rest =
        (Some (take (unat limit) ((tuples @ take (unat limit - length tuples) (avail index))
           @ concat (map avail [index + 1..<length queries]))), None)"
      using rest by (rule Cons.IH)
    moreover have "[index..<length queries] = index # [index + 1..<length queries]"
      using index by (simp add: upt_conv_Cons)
    moreover have "take (unat limit) ((tuples @ take (unat limit - length tuples) (avail index))
           @ concat (map avail [index + 1..<length queries])) =
        take (unat limit) (tuples @ avail index
           @ concat (map avail [index + 1..<length queries]))"
      using take_append_take [OF Cons.prems(1)] by simp
    ultimately show ?thesis using turn by simp
  qed
qed

lemma limited_call_returns_min:
  assumes "Limit ctq = Some limit" and "unat limit < 2 ^ 63"
    and "splitQueries ctq = Inr queries" and "backendServes env ctq queries avail"
  shows "SplitAndExecute env ctq =
     Inr (Some (take (unat limit) (concat (map avail [0..<length queries]))), None)"
proof -
  have "executeLoop env ctq [] 0 queries =
      (Some (take (unat limit) ([] @ concat (map avail [0..<length queries]))), None)"
    using assms(1,2,4) by (rule executeLoop_served) simp_all
  with assms(3) show ?thesis by (simp add: SplitAndExecute_def)
qed

lemma limited_call_returns_min_length:
  assumes "Limit ctq = Some limit" and "unat limit < 2 ^ 63"
    and "splitQueries ctq = Inr queries" and "backendServes env ctq queries avail"
  shows "\<exists>result. SplitAndExecute env ctq = Inr (Some result, None)
     \<and> length result = min (unat limit) (sum_list (map (\<lambda>i. length (avail i)) [0..<length queries]))"
  using limited_call_returns_min [OF assms]
  by (simp add: length_concat comp_def min.commute)

lemma servingEnv_serves_limitedSplitter:
  "backendServes servingEnv limitedSplitter [scenarioQueryOne, scenarioQueryTwo]
     (\<lambda>i. [tupleOne, tupleTwo])"
proof -
  have "\<exists>sql args served.
      ToSql servingEnv (queryBuilder (SchemaQueryFilterer_Limit
        ([scenarioQueryOne, scenarioQueryTwo] ! i) l)) = Inr (sql, args)
      \<and> Query servingEnv i sql args = Inr \<lparr>rowsList = map Scanned served, rowsErr = None\<rparr>
      \<and> take (unat l) served = take (unat l) [tupleOne, tupleTwo]"
    if "i < 2" for i l
  proof -
    from that have "i = 0 \<or> i = 1" by auto
    then have "ToSql servingEnv (queryBuilder (SchemaQueryFilterer_Limit
        ([scenarioQueryOne, scenarioQueryTwo] ! i) l)) = Inr (''SELECT'', [])"
      by (auto simp: servingEnv_def renderSql_limited)
    moreover have "Query servingEnv i ''SELECT'' [] =
        Inr \<lparr>rowsList = map Scanned [tupleOne, tupleTwo], rowsErr = None\<rparr>"
      by (simp add: servingEnv_def)
    ultimately show ?thesis by blast
  qed
  note answers = this
  show ?thesis
    unfolding backendServes_def
  proof (intro allI impI conjI)
    fix i
    show "BeginTx servingEnv i = None"
      by (simp add: servingEnv_def)
  next
    fix i
    show "case PrepareTransaction limitedSplitter of None \<Rightarrow> True
      | Some prepare \<Rightarrow> prepare i (Revision limitedSplitter) = None"
      by (simp add: limitedSplitter_def scenarioSplitter_def)
  next
    fix i l
    assume "i < length [scenarioQueryOne, scenarioQueryTwo]"
    then have "i < 2" by simp
    then show "\<exists>sql args served.
      ToSql servingEnv (queryBuilder (SchemaQueryFilterer_Limit
        ([scenarioQueryOne, scenarioQueryTwo] ! i) l)) = Inr (sql, args)
      \<and> Query servingEnv i sql args = Inr \<lparr>rowsList = map Scanned served, rowsErr = None\<rparr>
      \<and> take (unat l) served = take (unat l) [tupleOne, tupleTwo]"
      by (rule answers)
  qed
qed

lemma limited_call_returns_min_example:
  "SplitAndExecute servingEnv limitedSplitter = Inr (Some [tupleOne, tupleTwo, tupleOne], None)"
proof -
  have "Limit limitedSplitter = Some 3" by (simp add: limitedSplitter_def)
  moreover have "unat (3 :: 64 word) < 2 ^ 63" by simp
  ultimately have "SplitAndExecute servingEnv limitedSplitter =
     Inr (Some (take (unat (3 :: 64 word))
       (concat (map (\<lambda>i. [tupleOne, tupleTwo]) [0..<length [scenarioQueryOne, scenarioQueryTwo]]))),
       None)"
    using limitedSplitter_queries servingEnv_serves_limitedSplitter
    by (rule limited_call_returns_min)
  then show ?thesis by (simp add: upt_rec)
qed

text \<open>
  Claim C4. With a global limit \<open>L\<close> the loop computes \<open>L - len(tuples)\<close> before each
  query, stops when it is zero and otherwise caps the query with it; for \<open>L < 2 ^ 63\<close>
  and a backend that serves every query, the call returns the first \<open>L\<close> of the rows of
  the queries in order, \<open>min L R\<close> tuples (\<open>limited_call_returns_min_length\<close> above). For
  \<open>L \<ge> 2 ^ 63\<close> the conversion \<^verbatim>\<open>int(limit)\<close> in \<^verbatim>\<open>executeSingleQuery\<close> is negative and
  the row loop returns at its first row with no tuple: with the limit \<open>2 ^ 63\<close> and a
  backend that has two rows, the call returns no tuple and no error, where the claim
  says two tuples.
\<close>

theorem limit_beyond_int_range_returns_no_tuple:
  "Limit hugeLimitSplitter = Some (2 ^ 63)
   \<and> splitQueries hugeLimitSplitter = Inr [exampleBuilder]
   \<and> ToSql servingEnv (queryBuilder (SchemaQueryFilterer_Limit exampleBuilder (2 ^ 63)))
       = Inr (''SELECT'', [])
   \<and> Query servingEnv 0 ''SELECT'' []
       = Inr \<lparr>rowsList = [Scanned tupleOne, Scanned tupleTwo], rowsErr = None\<rparr>
   \<and> executeSingleQuery servingEnv hugeLimitSplitter
         (SchemaQueryFilterer_Limit exampleBuilder (2 ^ 63)) 0 (2 ^ 63) = ([], None)
   \<and> SplitAndExecute servingEnv hugeLimitSplitter = Inr (Some [], None)"
proof -
  have limit: "Limit hugeLimitSplitter = Some (2 ^ 63)"
    by (simp add: hugeLimitSplitter_def)
  have queries: "splitQueries hugeLimitSplitter = Inr [exampleBuilder]"
    by (simp add: splitQueries_def hugeLimitSplitter_def)
  have tosql: "ToSql servingEnv (queryBuilder (SchemaQueryFilterer_Limit exampleBuilder (2 ^ 63)))
       = Inr (''SELECT'', [])"
    by (simp add: servingEnv_def renderSql_def SchemaQueryFilterer_Limit_def
        SelectBuilder_Limit_def exampleBuilder_def NewSchemaQueryFilterer_def exampleQuery_def)
  have rows: "Query servingEnv 0 ''SELECT'' []
       = Inr \<lparr>rowsList = [Scanned tupleOne, Scanned tupleTwo], rowsErr = None\<rparr>"
    by (simp add: servingEnv_def)
  have negative: "sint (2 ^ 63 :: 64 word) < 0"
    by simp
  have single: "executeSingleQuery servingEnv hugeLimitSplitter
         (SchemaQueryFilterer_Limit exampleBuilder (2 ^ 63)) 0 (2 ^ 63) = ([], None)"
  proof -
    have "executeSingleQuery servingEnv hugeLimitSplitter
         (SchemaQueryFilterer_Limit exampleBuilder (2 ^ 63)) 0 (2 ^ 63) =
        rowsLoop (2 ^ 63) []
          (rowsList \<lparr>rowsList = [Scanned tupleOne, Scanned tupleTwo], rowsErr = None\<rparr>)
          (rowsErr \<lparr>rowsList = [Scanned tupleOne, Scanned tupleTwo], rowsErr = None\<rparr>)"
      using tosql _ _ rows
      by (rule executeSingleQuery_rows) (simp_all add: servingEnv_def hugeLimitSplitter_def)
    also have "\<dots> = ([], None)"
      using rowsLoop_negative_cap [OF negative] by simp
    finally show ?thesis .
  qed
  have "(2 ^ 63 :: 64 word) - of_nat (length ([] :: RelationTuple list)) \<noteq> 0"
    by simp
  with limit have "loopBody servingEnv hugeLimitSplitter [] 0 exampleBuilder =
      runQuery servingEnv hugeLimitSplitter [] 0
        (SchemaQueryFilterer_Limit exampleBuilder (2 ^ 63 - of_nat (length ([] :: RelationTuple list))))
        (2 ^ 63 - of_nat (length ([] :: RelationTuple list)))"
    by (rule loopBody_limited)
  with single have "loopBody servingEnv hugeLimitSplitter [] 0 exampleBuilder = Continue []"
    by (simp add: runQuery_def)
  with queries have "SplitAndExecute servingEnv hugeLimitSplitter = Inr (Some [], None)"
    by (simp add: SplitAndExecute_def)
  with limit queries tosql rows single show ?thesis by blast
qed

end
